theory Spec2Isabelle
  imports Complex_Main
begin

section \<open>Adaptive Gauss-Kronrod quadrature (Quadrature.inl)\<close>

text \<open>
  The C++ type \<open>double\<close> is modelled by an arbitrary ordered field \<open>'r\<close>: the
  definitions below use the arithmetic and the comparisons exactly where the source
  does, and rounding is not modelled.  The counters of the source (\<open>int\<close>) are
  mathematical integers.

  The integrand is a C++ callable and may have effects (it may count its calls, and it
  may itself integrate).  It is modelled as a function that takes the argument and a
  state \<open>'s\<close> and returns the value and the new state; the model threads that state
  through the calls in the order in which the source makes them.
\<close>

type_synonym ('r, 's) integrand = "'r \<Rightarrow> 's \<Rightarrow> 'r \<times> 's"

subsection \<open>What Quadrature.inl declares and does not define\<close>

text \<open>
  \<open>DBL_EPSILON\<close> and \<open>DBL_MIN\<close> come from \<open><cfloat>\<close>.  The tables
  \<open>wg15\<close>, \<open>wgk15\<close>, \<open>xgk15\<close> and the general rule \<open>GaussKronrod\<close> are declared
  in \<open>struct GKWorkspace\<close> and defined in another file; they are parameters of the
  model.  \<open>GaussKronrod\<close> receives numbers and arrays of numbers only, never the
  integrand; it returns the estimate and the three values it stores through its
  pointer arguments \<open>(result, abserr, resabs, resasc)\<close>.  The arrays \<open>fv1\<close>, \<open>fv2\<close>
  are handed over with the slots that were never assigned marked \<open>None\<close>.
\<close>

record 'r deps =
  DBL_EPSILON :: 'r
  DBL_MIN :: 'r
  wg15 :: "'r list"
  wgk15 :: "'r list"
  xgk15 :: "'r list"
  GaussKronrod :: "nat \<Rightarrow> 'r list \<Rightarrow> 'r list \<Rightarrow> 'r \<Rightarrow> 'r option list \<Rightarrow> 'r option list
                    \<Rightarrow> 'r \<Rightarrow> 'r \<times> 'r \<times> 'r \<times> 'r"

subsection \<open>GKWorkspace::GaussKronrod15\<close>

text \<open>
  The first loop, \<open>for(int j = 0; j < (n-1)/2; j++)\<close>, fills the odd slots; the second,
  \<open>for(int j = 0; j < n/2; j++)\<close>, the even ones.  Each pass evaluates the integrand at
  \<open>c - abscissa\<close> and then at \<open>c + abscissa\<close>.
\<close>

function gk15_odd :: "'r::linordered_field deps \<Rightarrow> ('r, 's) integrand \<Rightarrow> nat \<Rightarrow> 'r \<Rightarrow> 'r \<Rightarrow> nat
    \<Rightarrow> 'r option list \<times> 'r option list \<times> 's \<Rightarrow> 'r option list \<times> 'r option list \<times> 's" where
  "gk15_odd D f n c half j (fv1, fv2, s) =
     (if j < (n - 1) div 2 then
        (let abscissa = half * (xgk15 D ! (2 * j + 1));
             (y1, s1) = f (c - abscissa) s;
             (y2, s2) = f (c + abscissa) s1
         in gk15_odd D f n c half (j + 1)
              (fv1[2 * j + 1 := Some y1], fv2[2 * j + 1 := Some y2], s2))
      else (fv1, fv2, s))"
  by pat_completeness auto
termination
  by (relation "measure (\<lambda>(D, f, n, c, half, j, st). (n - 1) div 2 - j)") auto

function gk15_even :: "'r::linordered_field deps \<Rightarrow> ('r, 's) integrand \<Rightarrow> nat \<Rightarrow> 'r \<Rightarrow> 'r \<Rightarrow> nat
    \<Rightarrow> 'r option list \<times> 'r option list \<times> 's \<Rightarrow> 'r option list \<times> 'r option list \<times> 's" where
  "gk15_even D f n c half j (fv1, fv2, s) =
     (if j < n div 2 then
        (let abscissa = half * (xgk15 D ! (2 * j));
             (y1, s1) = f (c - abscissa) s;
             (y2, s2) = f (c + abscissa) s1
         in gk15_even D f n c half (j + 1)
              (fv1[2 * j := Some y1], fv2[2 * j := Some y2], s2))
      else (fv1, fv2, s))"
  by pat_completeness auto
termination
  by (relation "measure (\<lambda>(D, f, n, c, half, j, st). n div 2 - j)") auto

declare gk15_odd.simps [simp del] gk15_even.simps [simp del]

definition GaussKronrod15 :: "'r::linordered_field deps \<Rightarrow> ('r, 's) integrand \<Rightarrow> 'r \<Rightarrow> 'r \<Rightarrow> 's
    \<Rightarrow> ('r \<times> 'r \<times> 'r \<times> 'r) \<times> 's" where
  "GaussKronrod15 D f a b s =
     (let n = 8;
          c = 0.5 * (a + b);
          (fc, s0) = f c s;
          half = 0.5 * (b - a);
          (fv1, fv2, s1) = gk15_odd D f n c half 0 (replicate n None, replicate n None, s0);
          (fv1', fv2', s2) = gk15_even D f n c half 0 (fv1, fv2, s1)
      in (GaussKronrod D n (wg15 D) (wgk15 D) fc fv1' fv2' half, s2))"

text \<open>
  The integrand's calls, made one after the other on a list of points: the values
  returned and the state left behind.
\<close>

fun eval_calls :: "('r, 's) integrand \<Rightarrow> 'r list \<Rightarrow> 's \<Rightarrow> 'r list \<times> 's" where
  "eval_calls f [] s = ([], s)"
| "eval_calls f (x # xs) s =
     (let (y, s1) = f x s; (ys, s2) = eval_calls f xs s1 in (y # ys, s2))"

text \<open>The midpoint, then the pairs \<open>c - half*xgk15[k]\<close>, \<open>c + half*xgk15[k]\<close> in the
  order of the two loops: \<open>k = 1, 3, 5\<close> and then \<open>k = 0, 2, 4, 6\<close>.\<close>

definition gk15_points :: "'r::linordered_field deps \<Rightarrow> 'r \<Rightarrow> 'r \<Rightarrow> 'r list" where
  "gk15_points D a b =
     (let c = 0.5 * (a + b); half = 0.5 * (b - a)
      in c # concat (map (\<lambda>k. [c - half * (xgk15 D ! k), c + half * (xgk15 D ! k)])
                      [1, 3, 5, 0, 2, 4, 6]))"

text \<open>Three integrands built from a function \<open>g\<close> without effects: one that counts
  its calls, one that logs the points of its calls, one that leaves the state alone.\<close>

definition counting :: "('r \<Rightarrow> 'r) \<Rightarrow> ('r, nat) integrand" where
  "counting g x k = (g x, k + 1)"

definition logging :: "('r \<Rightarrow> 'r) \<Rightarrow> ('r, 'r list) integrand" where
  "logging g x tr = (g x, tr @ [x])"

definition pure_integrand :: "('r \<Rightarrow> 'r) \<Rightarrow> ('r, 's) integrand" where
  "pure_integrand g x s = (g x, s)"

subsection \<open>struct GKWorkspace\<close>

text \<open>
  The arrays are raw pointers in the source; they are modelled as stores from the slot
  index to the value held there.  \<open>limit\<close> is a \<open>const\<close> member: no operation
  changes it.
\<close>

record 'r GKWorkspace =
  limit :: int
  size_w :: int
  alist :: "nat \<Rightarrow> 'r"
  blist :: "nat \<Rightarrow> 'r"
  rlist :: "nat \<Rightarrow> 'r"
  elist :: "nat \<Rightarrow> 'r"
  order :: "nat \<Rightarrow> int"

text \<open>The live part of the ordering: the first \<open>size\<close> slots of \<open>order\<close>.\<close>

definition live_order :: "'r GKWorkspace \<Rightarrow> int list" where
  "live_order w = map (order w) [0..<nat (size_w w)]"

text \<open>
  Modelled from the spec: \<open>GetMaxInterval\<close> is declared in the source and defined
  elsewhere.  The spec's \<open>peek_max\<close> returns the current maximum-error entry, and
  \<open>order[0]\<close> always identifies it.
\<close>

definition GetMaxInterval :: "'r GKWorkspace \<Rightarrow> 'r \<times> 'r \<times> 'r \<times> 'r" where
  "GetMaxInterval w =
     (let i = nat (order w 0) in (alist w i, blist w i, rlist w i, elist w i))"

text \<open>
  Modelled from the spec: the targeted insertion of the spec's \<open>replace_max\<close> (the
  source declares \<open>Sort\<close> and defines it elsewhere).  An index is put in front of the
  first index whose error is strictly smaller, so that the indices stay in descending
  order of error and, among equal errors, the entry inserted first stays in front.
\<close>

fun insert_by_error :: "(nat \<Rightarrow> 'r::linorder) \<Rightarrow> int \<Rightarrow> int list \<Rightarrow> int list" where
  "insert_by_error el i [] = [i]"
| "insert_by_error el i (j # js) =
     (if el (nat j) < el (nat i) then i # j # js else j # insert_by_error el i js)"

text \<open>
  Modelled from the spec: writing the live part of the ordering back into the array
  \<open>order\<close>; the slots behind it keep what they held.
\<close>

definition store_order :: "int list \<Rightarrow> (nat \<Rightarrow> int) \<Rightarrow> nat \<Rightarrow> int" where
  "store_order js ord = (\<lambda>k. if k < length js then js ! k else ord k)"

text \<open>
  Modelled from the spec: \<open>Update\<close> is declared in the source and defined elsewhere.
  The spec's \<open>replace_max\<close> removes the current maximum-error entry and inserts both
  children, keeping the indices in descending order of error by a targeted insertion.
  Here the first child takes the parent's slot and the second child the first free
  slot, \<open>size\<close>, which grows by one.
\<close>

definition Update :: "'r::linorder GKWorkspace \<Rightarrow> 'r \<Rightarrow> 'r \<Rightarrow> 'r \<Rightarrow> 'r \<Rightarrow> 'r \<Rightarrow> 'r \<Rightarrow> 'r \<Rightarrow> 'r
    \<Rightarrow> 'r GKWorkspace" where
  "Update w a1 b1 area1 error1 a2 b2 area2 error2 =
     (let i_max = order w 0;
          i_new = size_w w;
          el = (elist w)(nat i_max := error1, nat i_new := error2);
          js = insert_by_error el i_new (insert_by_error el i_max (tl (live_order w)))
      in w\<lparr>size_w := size_w w + 1,
           alist := (alist w)(nat i_max := a1, nat i_new := a2),
           blist := (blist w)(nat i_max := b1, nat i_new := b2),
           rlist := (rlist w)(nat i_max := area1, nat i_new := area2),
           elist := el,
           order := store_order js (order w)\<rparr>)"

text \<open>
  Modelled from the spec: \<open>SumResults\<close> is declared in the source and defined
  elsewhere.  The spec's \<open>sum_all\<close> re-sums the estimates and the errors of all live
  entries, the smaller contributions first; it does not change the store.
\<close>

definition SumResults :: "'r::linordered_field GKWorkspace \<Rightarrow> 'r \<times> 'r" where
  "SumResults w =
     (let js = rev (live_order w)
      in (fold (\<lambda>j acc. acc + rlist w (nat j)) js 0,
          fold (\<lambda>j acc. acc + elist w (nat j)) js 0))"

text \<open>
  Modelled from the spec: \<open>ReportError\<close> is declared in the source and defined
  elsewhere.  The spec reports the diagnostic to the caller as data; the model appends
  the code to the list of the codes reported by the call.  The codes are
  1 (invalid tolerance), 3 (roundoff or singularity), 4 (subdivision limit) and
  0 (no diagnostic was set).
\<close>

definition ReportError :: "int \<Rightarrow> int list \<Rightarrow> int list" where
  "ReportError error_code reported = reported @ [error_code]"

subsection \<open>GKWorkspace::Integrate\<close>

text \<open>
  The counter \<open>neval\<close> is a 32-bit \<open>int\<close> in the source, and it grows by 30 in every
  pass.  Signed overflow is undefined in C++; the model wraps around as the two's
  complement hardware does.  \<open>iteration\<close> and \<open>size\<close> grow by one in a pass and
  never exceed \<open>max(limit, 2)\<close>, itself an \<open>int\<close>, so they are not wrapped.
\<close>

definition wrap_int :: "int \<Rightarrow> int" where
  "wrap_int x = (x + 2 ^ 31) mod 2 ^ 32 - 2 ^ 31"

text \<open>The variables that one pass of the \<open>do ... while\<close> loop reads and writes.
  \<open>tolerance\<close> is assigned in every pass before it is read, so a pass returns it.\<close>

record ('r, 's) run_state =
  ws :: "'r GKWorkspace"
  fs :: 's
  area :: 'r
  errsum :: 'r
  iteration :: int
  error_code :: int
  neval :: int

definition loop_body :: "'r::linordered_field deps \<Rightarrow> ('r, 's) integrand \<Rightarrow> 'r \<Rightarrow> 'r
    \<Rightarrow> ('r, 's) run_state \<Rightarrow> ('r, 's) run_state \<times> 'r" where
  "loop_body D f epsrel epsabs st =
     (let (a_i, b_i, r_i, e_i) = GetMaxInterval (ws st);
          a1 = a_i;
          b1 = 0.5 * (a_i + b_i);
          a2 = b1;
          b2 = b_i;
          ((area1, error1, resabs1, resasc1), s1) = GaussKronrod15 D f a1 b1 (fs st);
          ((area2, error2, resabs2, resasc2), s2) = GaussKronrod15 D f a2 b2 s1;
          neval' = wrap_int (neval st + 30);
          area12 = area1 + area2;
          error12 = error1 + error2;
          errsum' = errsum st + (error12 - e_i);
          area' = area st + (area12 - r_i);
          tolerance = max epsabs (epsrel * \<bar>area'\<bar>);
          error_code' =
            (if errsum' > tolerance then
               (let tmp = (1 + 100 * DBL_EPSILON D) * (\<bar>a2\<bar> + 1000 * DBL_MIN D);
                    ec = (if \<bar>a1\<bar> \<le> tmp \<and> \<bar>b2\<bar> \<le> tmp then 3 else error_code st)
                in if iteration st = limit (ws st) then 4 else ec)
             else error_code st);
          w' = Update (ws st) a1 b1 area1 error1 a2 b2 area2 error2
      in (st\<lparr>ws := w', fs := s2, area := area', errsum := errsum',
              iteration := iteration st + 1, error_code := error_code', neval := neval'\<rparr>,
          tolerance))"

definition loop_again :: "('r::linordered_field, 's) run_state \<times> 'r \<Rightarrow> bool" where
  "loop_again p = (case p of (st, tolerance) \<Rightarrow>
     iteration st < limit (ws st) \<and> error_code st = 0 \<and> errsum st > tolerance)"

function integrate_loop :: "'r::linordered_field deps \<Rightarrow> ('r, 's) integrand \<Rightarrow> 'r \<Rightarrow> 'r
    \<Rightarrow> ('r, 's) run_state \<Rightarrow> ('r, 's) run_state \<times> 'r" where
  "integrate_loop D f epsrel epsabs st =
     (let p = loop_body D f epsrel epsabs st
      in if loop_again p then integrate_loop D f epsrel epsabs (fst p) else p)"
  by pat_completeness auto
termination
proof (relation "measure (\<lambda>(D, f, epsrel, epsabs, st). nat (limit (ws st) - iteration st))")
  show "wf (measure (\<lambda>(D, f, epsrel, epsabs, st). nat (limit (ws st) - iteration st)))"
    by simp
next
  fix D :: "'r::linordered_field deps" and f :: "('r, 's) integrand" and epsrel epsabs :: 'r
    and st :: "('r, 's) run_state" and p
  assume p: "p = loop_body D f epsrel epsabs st" and again: "loop_again p"
  have it: "iteration (fst p) = iteration st + 1"
    unfolding p loop_body_def by (simp add: Let_def split: prod.splits)
  have lim: "limit (ws (fst p)) = limit (ws st)"
    unfolding p loop_body_def Update_def by (simp add: Let_def split: prod.splits)
  from again have "iteration (fst p) < limit (ws (fst p))"
    unfolding loop_again_def by (simp split: prod.splits)
  with it lim show "((D, f, epsrel, epsabs, fst p), (D, f, epsrel, epsabs, st))
      \<in> measure (\<lambda>(D, f, epsrel, epsabs, st). nat (limit (ws st) - iteration st))"
    by simp
qed

declare integrate_loop.simps [simp del]

text \<open>Number of passes of the \<open>do ... while\<close> loop: the same recursion, counting
  the executions of the body.\<close>

function loop_passes :: "'r::linordered_field deps \<Rightarrow> ('r, 's) integrand \<Rightarrow> 'r \<Rightarrow> 'r
    \<Rightarrow> ('r, 's) run_state \<Rightarrow> nat" where
  "loop_passes D f epsrel epsabs st =
     (let p = loop_body D f epsrel epsabs st
      in if loop_again p then 1 + loop_passes D f epsrel epsabs (fst p) else 1)"
  by pat_completeness auto
termination
proof (relation "measure (\<lambda>(D, f, epsrel, epsabs, st). nat (limit (ws st) - iteration st))")
  show "wf (measure (\<lambda>(D, f, epsrel, epsabs, st). nat (limit (ws st) - iteration st)))"
    by simp
next
  fix D :: "'r::linordered_field deps" and f :: "('r, 's) integrand" and epsrel epsabs :: 'r
    and st :: "('r, 's) run_state" and p
  assume p: "p = loop_body D f epsrel epsabs st" and again: "loop_again p"
  have it: "iteration (fst p) = iteration st + 1"
    unfolding p loop_body_def by (simp add: Let_def split: prod.splits)
  have lim: "limit (ws (fst p)) = limit (ws st)"
    unfolding p loop_body_def Update_def by (simp add: Let_def split: prod.splits)
  from again have "iteration (fst p) < limit (ws (fst p))"
    unfolding loop_again_def by (simp split: prod.splits)
  with it lim show "((D, f, epsrel, epsabs, fst p), (D, f, epsrel, epsabs, st))
      \<in> measure (\<lambda>(D, f, epsrel, epsabs, st). nat (limit (ws st) - iteration st))"
    by simp
qed

declare loop_passes.simps [simp del]

text \<open>
  What a call leaves behind: the returned value, the cells behind the two pointer
  arguments (\<open>None\<close> for a null pointer, \<open>Some v\<close> for a cell holding \<open>v\<close>), the codes
  passed to \<open>ReportError\<close>, the workspace and the integrand's state.
\<close>

record ('r, 's) outcome =
  ret :: 'r
  abserr_cell :: "'r option"
  neval_cell :: "int option"
  reported :: "int list"
  ws_out :: "'r GKWorkspace"
  fs_out :: 's

text \<open>The test \<open>epsabs <= 0 && (epsrel < 50*DBL_EPSILON || epsrel < 0.5e-28)\<close>.\<close>

definition invalid_tolerance :: "'r::linordered_field deps \<Rightarrow> 'r \<Rightarrow> 'r \<Rightarrow> bool" where
  "invalid_tolerance D epsrel epsabs =
     (epsabs \<le> 0 \<and> (epsrel < 50 * DBL_EPSILON D \<or> epsrel < 0.5 / 10 ^ 28))"

text \<open>From the ordering of the bounds to the entry of the loop: the sign, and the
  variables as the first pass finds them.\<close>

definition loop_entry :: "'r::linordered_field deps \<Rightarrow> 'r GKWorkspace \<Rightarrow> ('r, 's) integrand
    \<Rightarrow> 'r \<Rightarrow> 'r \<Rightarrow> 's \<Rightarrow> 'r \<times> ('r, 's) run_state" where
  "loop_entry D w f a b s =
     (let (a', b', sign) = (if a > b then (b, a, - 1) else (a, b, 1));
          ((result, abserr, resabs, resasc), s1) = GaussKronrod15 D f a' b' s;
          neval' = wrap_int (0 + 15);
          w1 = w\<lparr>size_w := 1,
                 alist := (alist w)(0 := a'),
                 blist := (blist w)(0 := b'),
                 rlist := (rlist w)(0 := result),
                 elist := (elist w)(0 := abserr),
                 order := (order w)(0 := 0)\<rparr>
      in (sign, \<lparr>ws = w1, fs = s1, area = result, errsum = abserr, iteration = 1,
                 error_code = 0, neval = neval'\<rparr>))"

definition GKWorkspace_Integrate :: "'r::linordered_field deps \<Rightarrow> 'r GKWorkspace
    \<Rightarrow> ('r, 's) integrand \<Rightarrow> 'r \<Rightarrow> 'r \<Rightarrow> 'r \<Rightarrow> 'r \<Rightarrow> 'r option \<Rightarrow> int option \<Rightarrow> 's
    \<Rightarrow> ('r, 's) outcome" where
  "GKWorkspace_Integrate D w f a b epsrel epsabs pabserr pneval s =
     (if invalid_tolerance D epsrel epsabs then
        \<lparr>ret = 0, abserr_cell = pabserr, neval_cell = pneval,
         reported = ReportError 1 [], ws_out = w, fs_out = s\<rparr>
      else
        (let (sign, st0) = loop_entry D w f a b s;
             (st, tolerance) = integrate_loop D f epsrel epsabs st0;
             (result, abserr) = SumResults (ws st)
         in \<lparr>ret = sign * result,
             abserr_cell = map_option (\<lambda>_. abserr) pabserr,
             neval_cell = map_option (\<lambda>_. neval st) pneval,
             reported = (if abserr > tolerance then ReportError (error_code st) [] else []),
             ws_out = ws st, fs_out = fs st\<rparr>))"

text \<open>The passes of the loop in a call (none when the tolerances are refused).\<close>

definition Integrate_passes :: "'r::linordered_field deps \<Rightarrow> 'r GKWorkspace
    \<Rightarrow> ('r, 's) integrand \<Rightarrow> 'r \<Rightarrow> 'r \<Rightarrow> 'r \<Rightarrow> 'r \<Rightarrow> 's \<Rightarrow> nat" where
  "Integrate_passes D w f a b epsrel epsabs s =
     (if invalid_tolerance D epsrel epsabs then 0
      else loop_passes D f epsrel epsabs (snd (loop_entry D w f a b s)))"

subsection \<open>WorkspaceManager and the public entry points\<close>

text \<open>
  \<open>gk_workspaces\<close> is a \<open>std::map<GKWorkspace*, int>\<close>: the keys are the addresses
  of the workspaces, the value is 1 for a workspace in use and 0 otherwise.  The heap
  holds what the addresses point to.  The integrand runs in this world: it may call the
  public entry points itself.  \<open>user\<close> stands for everything else it touches.
\<close>

record ('r, 'u) world =
  gk_workspaces :: "(nat \<times> int) list"
  heap :: "nat \<Rightarrow> 'r GKWorkspace"
  user :: 'u

definition GK_LIMIT :: int where
  "GK_LIMIT = 8192"

text \<open>
  Modelled from the spec: setting the in-use value of the entry with key \<open>p\<close>, and
  an address that is not yet a key, for a workspace that is constructed.
\<close>

definition mark :: "nat \<Rightarrow> int \<Rightarrow> (nat \<times> int) list \<Rightarrow> (nat \<times> int) list" where
  "mark p v xs = map (\<lambda>(q, used). if q = p then (q, v) else (q, used)) xs"

definition fresh :: "(nat \<times> int) list \<Rightarrow> nat" where
  "fresh xs = Suc (fold max (map fst xs) 0)"

text \<open>The workspaces in use: the keys of the map whose value is not 0.\<close>

definition used_keys :: "(nat \<times> int) list \<Rightarrow> nat set" where
  "used_keys xs = set (map fst (filter (\<lambda>(p, used). used \<noteq> 0) xs))"

definition in_use :: "('r, 'u) world \<Rightarrow> nat set" where
  "in_use W = used_keys (gk_workspaces W)"

text \<open>
  Modelled from the spec: \<open>get_gk_workspace\<close> is declared in the source and defined
  elsewhere.  The spec's \<open>acquire\<close> scans the entries for a free one, marks it in use
  and returns it after a reset; otherwise it constructs a store of the default capacity
  and registers it as in use.  The source's function takes no capacity.  A store that
  is constructed holds whatever the memory held.
\<close>

definition get_gk_workspace :: "('r, 'u) world \<Rightarrow> nat \<times> ('r, 'u) world" where
  "get_gk_workspace W =
     (case find (\<lambda>(p, used). used = 0) (gk_workspaces W) of
        Some (p, used) \<Rightarrow>
          (p, W\<lparr>gk_workspaces := mark p 1 (gk_workspaces W),
                heap := (heap W)(p := (heap W p)\<lparr>size_w := 0\<rparr>)\<rparr>)
      | None \<Rightarrow>
          (let p = fresh (gk_workspaces W)
           in (p, W\<lparr>gk_workspaces := gk_workspaces W @ [(p, 1)],
                    heap := (heap W)(p := (heap W p)\<lparr>limit := GK_LIMIT, size_w := 0\<rparr>)\<rparr>)))"

text \<open>
  Modelled from the spec: \<open>release_gk_workspace\<close> is declared in the source and
  defined elsewhere.  The spec's \<open>release\<close> marks the matching entry free and frees
  nothing.
\<close>

definition release_gk_workspace :: "('r, 'u) world \<Rightarrow> nat \<Rightarrow> ('r, 'u) world" where
  "release_gk_workspace W p = W\<lparr>gk_workspaces := mark p 0 (gk_workspaces W)\<rparr>"

text \<open>
  The free function \<open>Integrate\<close>.  The member function works on the workspace behind
  the pointer while the integrand runs in the world; the workspace is written back to
  its address when the member function returns.
\<close>

definition Integrate :: "'r::linordered_field deps \<Rightarrow> ('r, ('r, 'u) world) integrand
    \<Rightarrow> 'r \<Rightarrow> 'r \<Rightarrow> 'r \<Rightarrow> 'r \<Rightarrow> 'r option \<Rightarrow> int option \<Rightarrow> ('r, 'u) world
    \<Rightarrow> ('r, ('r, 'u) world) outcome" where
  "Integrate D f a b epsrel epsabs pabserr pneval W =
     (let (workspace, W1) = get_gk_workspace W;
          r = GKWorkspace_Integrate D (heap W1 workspace) f a b epsrel epsabs pabserr pneval W1;
          W2 = (fs_out r)\<lparr>heap := (heap (fs_out r))(workspace := ws_out r)\<rparr>;
          W3 = release_gk_workspace W2 workspace
      in r\<lparr>fs_out := W3\<rparr>)"

text \<open>\<open>Sub\<close> is a template parameter: a substitution with the methods \<open>x\<close>,
  \<open>dxdu\<close> and \<open>u\<close>.\<close>

record 'r Sub =
  sub_x :: "'r \<Rightarrow> 'r"
  sub_dxdu :: "'r \<Rightarrow> 'r"
  sub_u :: "'r \<Rightarrow> 'r"

definition SubFunc :: "('r::linordered_field, 's) integrand \<Rightarrow> 'r Sub \<Rightarrow> ('r, 's) integrand" where
  "SubFunc f sub u s = (let (y, s1) = f (sub_x sub u) s in (y * sub_dxdu sub u, s1))"

definition Integrate_Sub :: "'r::linordered_field deps \<Rightarrow> ('r, ('r, 'u) world) integrand
    \<Rightarrow> 'r \<Rightarrow> 'r \<Rightarrow> 'r \<Rightarrow> 'r \<Rightarrow> 'r option \<Rightarrow> int option \<Rightarrow> 'r Sub \<Rightarrow> ('r, 'u) world
    \<Rightarrow> ('r, ('r, 'u) world) outcome" where
  "Integrate_Sub D f a b epsrel epsabs pabserr pneval sub W =
     (let (workspace, W1) = get_gk_workspace W;
          F = SubFunc f sub;
          r = GKWorkspace_Integrate D (heap W1 workspace) F (sub_u sub a) (sub_u sub b)
                epsrel epsabs pabserr pneval W1;
          W2 = (fs_out r)\<lparr>heap := (heap (fs_out r))(workspace := ws_out r)\<rparr>;
          W3 = release_gk_workspace W2 workspace
      in r\<lparr>fs_out := W3\<rparr>)"

text \<open>The composed integrand in the spec's words: \<open>g(u) = f(x(u)) \<cdot> dxdu(u)\<close>.\<close>

definition spec_composed :: "('r::linordered_field \<Rightarrow> 'r) \<Rightarrow> 'r Sub \<Rightarrow> 'r \<Rightarrow> 'r" where
  "spec_composed g sub u = g (sub_x sub u) * sub_dxdu sub u"

subsection \<open>An integrand that throws\<close>

text \<open>
  The integrand is a template argument and may throw.  Neither \<open>GKWorkspace::Integrate\<close>
  nor the free function \<open>Integrate\<close> has a handler or a guard object, so an exception
  of the integrand leaves both at once.  A call either returns its outcome, or is left
  by an exception, with the world as the throw found it.
\<close>

datatype ('a, 'w) completion = Returns 'a | Throws 'w

definition exit_world :: "(('r, 'w) outcome, 'w) completion \<Rightarrow> 'w" where
  "exit_world c = (case c of Returns r \<Rightarrow> fs_out r | Throws W \<Rightarrow> W)"

text \<open>
  The free function \<open>Integrate\<close> with both exits of its second statement: \<open>engine\<close>
  stands for the call \<open>workspace->Integrate(...)\<close>.  When the call returns, the next
  statement releases the workspace; when it throws, that statement is not reached.
\<close>

definition Integrate_exits ::
  "('r GKWorkspace \<Rightarrow> ('r, 'u) world
      \<Rightarrow> (('r, ('r, 'u) world) outcome, ('r, 'u) world) completion)
    \<Rightarrow> ('r, 'u) world \<Rightarrow> (('r, ('r, 'u) world) outcome, ('r, 'u) world) completion" where
  "Integrate_exits engine W =
     (let (workspace, W1) = get_gk_workspace W
      in case engine (heap W1 workspace) W1 of
           Throws Wt \<Rightarrow> Throws Wt
         | Returns r \<Rightarrow>
             (let W2 = (fs_out r)\<lparr>heap := (heap (fs_out r))(workspace := ws_out r)\<rparr>;
                  W3 = release_gk_workspace W2 workspace
              in Returns (r\<lparr>fs_out := W3\<rparr>)))"

text \<open>The member function with an integrand that does not throw: it returns.\<close>

definition engine_returns :: "'r::linordered_field deps \<Rightarrow> ('r, ('r, 'u) world) integrand
    \<Rightarrow> 'r \<Rightarrow> 'r \<Rightarrow> 'r \<Rightarrow> 'r \<Rightarrow> 'r option \<Rightarrow> int option \<Rightarrow> 'r GKWorkspace \<Rightarrow> ('r, 'u) world
    \<Rightarrow> (('r, ('r, 'u) world) outcome, ('r, 'u) world) completion" where
  "engine_returns D f a b epsrel epsabs pabserr pneval w W =
     Returns (GKWorkspace_Integrate D w f a b epsrel epsabs pabserr pneval W)"

text \<open>
  The member function with an integrand that throws when it is first called.  The test
  of the tolerances comes first and returns without a call of the integrand; otherwise
  the first call, made by \<open>GaussKronrod15\<close> for the whole interval before anything is
  written, throws.
\<close>

definition engine_throws :: "'r::linordered_field deps \<Rightarrow> 'r \<Rightarrow> 'r \<Rightarrow> 'r option \<Rightarrow> int option
    \<Rightarrow> 'r GKWorkspace \<Rightarrow> ('r, 'u) world
    \<Rightarrow> (('r, ('r, 'u) world) outcome, ('r, 'u) world) completion" where
  "engine_throws D epsrel epsabs pabserr pneval w W =
     (if invalid_tolerance D epsrel epsabs then
        Returns \<lparr>ret = 0, abserr_cell = pabserr, neval_cell = pneval,
                 reported = ReportError 1 [], ws_out = w, fs_out = W\<rparr>
      else Throws W)"

text \<open>An integrand that computes \<open>g\<close> and notes, at every call, which workspaces
  are in use at that moment (with \<open>obs U l = l @ [U]\<close> it keeps a log of them).\<close>

definition watching :: "(nat set \<Rightarrow> 'u \<Rightarrow> 'u) \<Rightarrow> ('r \<Rightarrow> 'r) \<Rightarrow> ('r, ('r, 'u) world) integrand" where
  "watching obs g x W = (g x, W\<lparr>user := obs (in_use W) (user W)\<rparr>)"

subsection \<open>Relations between two runs\<close>

text \<open>
  Two workspaces that agree on what is live: the same \<open>limit\<close> and \<open>size\<close>, at
  least one entry, the same contents in the slots below \<open>size\<close>, and an ordering whose
  live part names live slots.  The slots from \<open>size\<close> on may differ.
\<close>

definition sim_ws :: "'r GKWorkspace \<Rightarrow> 'r GKWorkspace \<Rightarrow> bool" where
  "sim_ws w w' =
     (limit w = limit w' \<and> size_w w = size_w w' \<and> 1 \<le> size_w w \<and>
      (\<forall>k < nat (size_w w).
         alist w k = alist w' k \<and> blist w k = blist w' k \<and> rlist w k = rlist w' k \<and>
         elist w k = elist w' k \<and> order w k = order w' k \<and>
         0 \<le> order w k \<and> order w k < size_w w))"

text \<open>Two integrands that return the same values and keep their states related.\<close>

definition sim_calls :: "('s \<Rightarrow> 't \<Rightarrow> bool) \<Rightarrow> ('r, 's) integrand \<Rightarrow> ('r, 't) integrand \<Rightarrow> bool" where
  "sim_calls R f f' =
     (\<forall>x s t. R s t \<longrightarrow> fst (f x s) = fst (f' x t) \<and> R (snd (f x s)) (snd (f' x t)))"

definition sim_run :: "('s \<Rightarrow> 't \<Rightarrow> bool) \<Rightarrow> ('r, 's) run_state \<Rightarrow> ('r, 't) run_state \<Rightarrow> bool" where
  "sim_run R st st' =
     (sim_ws (ws st) (ws st') \<and> R (fs st) (fs st') \<and> area st = area st' \<and>
      errsum st = errsum st' \<and> iteration st = iteration st' \<and>
      error_code st = error_code st' \<and> neval st = neval st')"

text \<open>A run on an interval of width zero, \<open>[c, c]\<close>: every live entry is that
  interval with the estimate 0.\<close>

definition point_run :: "'r::linordered_field \<Rightarrow> ('r, 's) run_state \<Rightarrow> bool" where
  "point_run c st =
     (sim_ws (ws st) (ws st) \<and>
      (\<forall>k < nat (size_w (ws st)).
         alist (ws st) k = c \<and> blist (ws st) k = c \<and> rlist (ws st) k = 0))"

subsection \<open>A concrete instance\<close>

text \<open>
  An instance over the rationals on which the definitions can be run: a rule of the
  Gauss-Kronrod shape (a 15-point sum \<open>K\<close>, an embedded 7-point sum \<open>G\<close>, the error
  \<open>|K - G|\<close>) with short tables, and a workspace with all slots zero.
\<close>

definition demo_rule :: "nat \<Rightarrow> rat list \<Rightarrow> rat list \<Rightarrow> rat \<Rightarrow> rat option list
    \<Rightarrow> rat option list \<Rightarrow> rat \<Rightarrow> rat \<times> rat \<times> rat \<times> rat" where
  "demo_rule n wg wgk fc fv1 fv2 half =
     (let v = (\<lambda>fv j. case fv ! j of Some y \<Rightarrow> y | None \<Rightarrow> 0);
          K = wgk ! (n - 1) * fc
              + (\<Sum>j\<leftarrow>[0..<n - 1]. wgk ! j * (v fv1 j + v fv2 j));
          G = wg ! (n div 2 - 1) * fc
              + (\<Sum>j\<leftarrow>[0..<(n - 1) div 2]. wg ! j * (v fv1 (2 * j + 1) + v fv2 (2 * j + 1)));
          A = wgk ! (n - 1) * \<bar>fc\<bar>
              + (\<Sum>j\<leftarrow>[0..<n - 1]. wgk ! j * (\<bar>v fv1 j\<bar> + \<bar>v fv2 j\<bar>))
      in (K * half, \<bar>(K - G) * half\<bar>, A * \<bar>half\<bar>, 0))"

definition demo_deps :: "rat deps" where
  "demo_deps = \<lparr>DBL_EPSILON = 1 / 2 ^ 52, DBL_MIN = 1 / 2 ^ 1022,
     wg15 = [0.13, 0.28, 0.38, 0.42],
     wgk15 = [0.02, 0.06, 0.10, 0.14, 0.17, 0.19, 0.21, 0.22],
     xgk15 = [0.99, 0.95, 0.86, 0.74, 0.59, 0.41, 0.21, 0],
     GaussKronrod = demo_rule\<rparr>"

definition demo_ws :: "int \<Rightarrow> rat GKWorkspace" where
  "demo_ws n = \<lparr>limit = n, size_w = 0, alist = (\<lambda>k. 0), blist = (\<lambda>k. 0),
     rlist = (\<lambda>k. 0), elist = (\<lambda>k. 0), order = (\<lambda>k. 0)\<rparr>"

definition square :: "rat \<Rightarrow> rat" where
  "square x = x * x"

text \<open>An integrand with a singularity at 0, and the state at the entry of the loop
  when it is integrated from 0 to 1 on a workspace with \<open>limit = 2\<close>.\<close>

definition recip :: "rat \<Rightarrow> rat" where
  "recip x = 1 / x"

definition demo_entry_state :: "(rat, nat) run_state" where
  "demo_entry_state = snd (loop_entry demo_deps (demo_ws 2) (counting recip) 0 1 0)"

text \<open>A world with two workspaces, the first in use; and an integrand that itself
  integrates, from 0 to its argument, through the free function.\<close>

definition demo_world :: "(rat, unit) world" where
  "demo_world = \<lparr>gk_workspaces = [(1, 1), (2, 0)], heap = (\<lambda>p. demo_ws GK_LIMIT), user = ()\<rparr>"

definition nested :: "(rat, (rat, unit) world) integrand" where
  "nested x W =
     (let r = Integrate demo_deps (pure_integrand square) 0 x (1 / 10 ^ 6) 0 None None W
      in (ret r, fs_out r))"

section \<open>Properties\<close>

subsection \<open>The fixed rule\<close>

lemma fv_slots:
  "(replicate 8 None)[Suc 0 := a1, 3 := a3, 5 := a5, 0 := a0, 2 := a2, 4 := a4, 6 := a6]
     = [a0, a1, a2, a3, a4, a5, a6, None]"
  by (simp add: numeral_eq_Suc)

text \<open>\<open>GaussKronrod15\<close> is the integrand called on the 15 points in turn, followed by
  one application of the general rule to the values.\<close>

lemma GaussKronrod15_calls:
  "GaussKronrod15 D f a b s =
     (let (ys, s') = eval_calls f (gk15_points D a b) s
      in (GaussKronrod D 8 (wg15 D) (wgk15 D) (ys ! 0)
            [Some (ys ! 7), Some (ys ! 1), Some (ys ! 9), Some (ys ! 3),
             Some (ys ! 11), Some (ys ! 5), Some (ys ! 13), None]
            [Some (ys ! 8), Some (ys ! 2), Some (ys ! 10), Some (ys ! 4),
             Some (ys ! 12), Some (ys ! 6), Some (ys ! 14), None]
            (0.5 * (b - a)), s'))"
  by (simp add: GaussKronrod15_def gk15_points_def gk15_odd.simps gk15_even.simps
      Let_def case_prod_beta fv_slots)

lemma eval_calls_counting: "eval_calls (counting g) xs k = (map g xs, k + length xs)"
  by (induction xs arbitrary: k) (simp_all add: counting_def)

lemma eval_calls_logging: "eval_calls (logging g) xs tr = (map g xs, tr @ xs)"
  by (induction xs arbitrary: tr) (simp_all add: logging_def)

lemma eval_calls_pure: "eval_calls (pure_integrand g) xs s = (map g xs, s)"
  by (induction xs arbitrary: s) (simp_all add: pure_integrand_def)

lemma length_gk15_points: "length (gk15_points D a b) = 15"
  by (simp add: gk15_points_def Let_def)

text \<open>
  C2.  \<open>GaussKronrod15\<close> calls the integrand exactly 15 times: its whole effect on the
  integrand's state is that of the calls at the points of \<open>gk15_points\<close>, the midpoint
  and the 7 pairs symmetric about it, of which there are 15.  An integrand that counts
  its calls counts 15, one that logs them logs these points.  For an integrand without
  effects no state is modified and the four outputs depend on the inputs only.
\<close>

theorem GaussKronrod15_fifteen_calls:
  "snd (GaussKronrod15 D f a b s) = snd (eval_calls f (gk15_points D a b) s)
   \<and> length (gk15_points D a b) = 15
   \<and> gk15_points D a b =
       (0.5 * (a + b)) #
       concat (map (\<lambda>k. [0.5 * (a + b) - 0.5 * (b - a) * (xgk15 D ! k),
                          0.5 * (a + b) + 0.5 * (b - a) * (xgk15 D ! k)])
                 [1, 3, 5, 0, 2, 4, 6])
   \<and> snd (GaussKronrod15 D (counting g) a b k) = k + 15
   \<and> snd (GaussKronrod15 D (logging g) a b tr) = tr @ gk15_points D a b
   \<and> snd (GaussKronrod15 D (pure_integrand g) a b s) = s
   \<and> fst (GaussKronrod15 D (pure_integrand g) a b s)
       = fst (GaussKronrod15 D (pure_integrand g) a b s')
   \<and> fst (GaussKronrod15 D (counting g) a b k)
       = fst (GaussKronrod15 D (pure_integrand g) a b s)
   \<and> fst (GaussKronrod15 D (logging g) a b tr)
       = fst (GaussKronrod15 D (pure_integrand g) a b s)"
  by (simp add: GaussKronrod15_calls eval_calls_counting eval_calls_logging eval_calls_pure
      length_gk15_points case_prod_beta)
    (simp add: gk15_points_def Let_def)

subsection \<open>The tolerance check\<close>

text \<open>
  C1.  If \<open>epsabs \<le> 0\<close> and \<open>epsrel < max(50\<cdot>DBL_EPSILON, 0.5e-28)\<close>, the call
  returns 0 and reports code 1 (invalid tolerance) and nothing else, and the integrand
  is not called: its state is the one the call started with, a counting integrand has
  counted nothing and a logging one has logged nothing.
\<close>

theorem invalid_tolerance_returns_at_once:
  assumes "epsabs \<le> 0" and "epsrel < max (50 * DBL_EPSILON D) (0.5 / 10 ^ 28)"
  shows "ret (GKWorkspace_Integrate D w f a b epsrel epsabs pabserr pneval s) = 0
   \<and> reported (GKWorkspace_Integrate D w f a b epsrel epsabs pabserr pneval s) = [1]
   \<and> fs_out (GKWorkspace_Integrate D w f a b epsrel epsabs pabserr pneval s) = s
   \<and> fs_out (GKWorkspace_Integrate D w (counting g) a b epsrel epsabs pabserr pneval k) = k
   \<and> fs_out (GKWorkspace_Integrate D w (logging g) a b epsrel epsabs pabserr pneval tr) = tr"
  using assms
  by (simp add: GKWorkspace_Integrate_def invalid_tolerance_def ReportError_def less_max_iff_disj)

theorem invalid_tolerance_returns_at_once_witness:
  "(- 1 :: rat) \<le> 0 \<and> (1 / 10 ^ 30 :: rat) < max (50 * DBL_EPSILON demo_deps) (0.5 / 10 ^ 28)
   \<and> ret (GKWorkspace_Integrate demo_deps (demo_ws 5) (counting square) 0 1 (1 / 10 ^ 30) (- 1)
        (Some 9) (Some 7) 0) = 0
   \<and> reported (GKWorkspace_Integrate demo_deps (demo_ws 5) (counting square) 0 1 (1 / 10 ^ 30) (- 1)
        (Some 9) (Some 7) 0) = [1]
   \<and> fs_out (GKWorkspace_Integrate demo_deps (demo_ws 5) (counting square) 0 1 (1 / 10 ^ 30) (- 1)
        (Some 9) (Some 7) 0) = 0"
proof -
  have h1: "(- 1 :: rat) \<le> 0" by simp
  have h2: "(1 / 10 ^ 30 :: rat) < max (50 * DBL_EPSILON demo_deps) (0.5 / 10 ^ 28)"
    by (simp add: demo_deps_def)
  from invalid_tolerance_returns_at_once [OF h1 h2, where w = "demo_ws 5"
      and f = "counting square" and a = 0 and b = 1 and pabserr = "Some 9"
      and pneval = "Some 7" and s = 0] h1 h2
  show ?thesis by simp
qed

text \<open>
  C5.  With \<open>epsabs = 0\<close> and \<open>epsrel = 0\<close> the call reports code 1 (invalid
  tolerance), but it returns before the statement \<open>*pneval = neval\<close>: the cell behind
  \<open>pneval\<close> keeps the value \<open>n\<close> it held before the call, whatever that was, and is
  not set to 0.  The same holds for the cell behind \<open>pabserr\<close>.
\<close>

theorem zero_tolerances_leave_cells:
  "reported (GKWorkspace_Integrate D w f a b 0 0 pabserr (Some n) s) = [1]
   \<and> neval_cell (GKWorkspace_Integrate D w f a b 0 0 pabserr (Some n) s) = Some n
   \<and> abserr_cell (GKWorkspace_Integrate D w f a b 0 0 pabserr (Some n) s) = pabserr"
  by (simp add: GKWorkspace_Integrate_def invalid_tolerance_def ReportError_def)

subsection \<open>The adaptive loop\<close>

lemma Update_fields:
  "limit (Update w a1 b1 r1 e1 a2 b2 r2 e2) = limit w"
  "size_w (Update w a1 b1 r1 e1 a2 b2 r2 e2) = size_w w + 1"
  "alist (Update w a1 b1 r1 e1 a2 b2 r2 e2) = (alist w)(nat (order w 0) := a1, nat (size_w w) := a2)"
  "blist (Update w a1 b1 r1 e1 a2 b2 r2 e2) = (blist w)(nat (order w 0) := b1, nat (size_w w) := b2)"
  "rlist (Update w a1 b1 r1 e1 a2 b2 r2 e2) = (rlist w)(nat (order w 0) := r1, nat (size_w w) := r2)"
  "elist (Update w a1 b1 r1 e1 a2 b2 r2 e2) = (elist w)(nat (order w 0) := e1, nat (size_w w) := e2)"
  "order (Update w a1 b1 r1 e1 a2 b2 r2 e2) =
     store_order
       (insert_by_error ((elist w)(nat (order w 0) := e1, nat (size_w w) := e2)) (size_w w)
         (insert_by_error ((elist w)(nat (order w 0) := e1, nat (size_w w) := e2)) (order w 0)
           (tl (live_order w))))
       (order w)"
  by (simp_all add: Update_def Let_def)

lemma loop_body_iteration: "iteration (fst (loop_body D f er ea st)) = iteration st + 1"
  by (simp add: loop_body_def Let_def split: prod.splits)




lemma loop_body_limit: "limit (ws (fst (loop_body D f er ea st))) = limit (ws st)"
  by (simp add: loop_body_def Update_def Let_def split: prod.splits)

lemma loop_body_size: "size_w (ws (fst (loop_body D f er ea st))) = size_w (ws st) + 1"
  by (simp add: loop_body_def Update_def Let_def split: prod.splits)

lemma loop_body_error_code:
  "error_code (fst (loop_body D f er ea st)) = 4
    \<Longrightarrow> iteration st = limit (ws st) \<or> error_code st = 4"
  by (simp add: loop_body_def Let_def split: prod.splits if_splits)

lemma loop_body_counting: "fs (fst (loop_body D (counting g) er ea st)) = fs st + 30"
  by (simp add: loop_body_def Let_def GaussKronrod15_calls eval_calls_counting
      length_gk15_points split: prod.splits)

lemma loop_passes_pos: "Suc 0 \<le> loop_passes D f er ea st"
  by (subst loop_passes.simps) (simp add: Let_def)


lemma integrate_loop_size:
  "size_w (ws (fst (integrate_loop D f er ea st)))
     = size_w (ws st) + int (loop_passes D f er ea st)"
proof (induction D f er ea st rule: integrate_loop.induct)
  case (1 D f er ea st)
  show ?case
    by (subst integrate_loop.simps, subst loop_passes.simps)
      (use 1 in \<open>simp add: Let_def loop_body_size\<close>)
qed

lemma integrate_loop_iteration:
  "iteration (fst (integrate_loop D f er ea st))
     = iteration st + int (loop_passes D f er ea st)"
proof (induction D f er ea st rule: integrate_loop.induct)
  case (1 D f er ea st)
  show ?case
    by (subst integrate_loop.simps, subst loop_passes.simps)
      (use 1 in \<open>simp add: Let_def loop_body_iteration\<close>)
qed

lemma integrate_loop_limit: "limit (ws (fst (integrate_loop D f er ea st))) = limit (ws st)"
proof (induction D f er ea st rule: integrate_loop.induct)
  case (1 D f er ea st)
  show ?case
    by (subst integrate_loop.simps) (use 1 in \<open>simp add: Let_def loop_body_limit\<close>)
qed

lemma integrate_loop_counting:
  "fs (fst (integrate_loop D (counting g) er ea st))
     = fs st + 30 * loop_passes D (counting g) er ea st"
proof (induction D "counting g" er ea st rule: integrate_loop.induct)
  case (1 D er ea st)
  show ?case
    by (subst integrate_loop.simps, subst loop_passes.simps)
      (use 1 in \<open>simp add: Let_def loop_body_counting\<close>)
qed

text \<open>Code 4 is set in a pass that starts with \<open>iteration = limit\<close> only, and the
  loop's guard lets a further pass start with \<open>iteration < limit\<close> only.\<close>

lemma integrate_loop_never_4:
  "iteration st < limit (ws st) \<Longrightarrow> error_code st \<noteq> 4
    \<Longrightarrow> error_code (fst (integrate_loop D f er ea st)) \<noteq> 4"
proof (induction D f er ea st rule: integrate_loop.induct)
  case (1 D f er ea st)
  let ?p = "loop_body D f er ea st"
  have ne: "error_code (fst ?p) \<noteq> 4"
    using loop_body_error_code [of D f er ea st] "1.prems" by auto
  show ?case
  proof (cases "loop_again ?p")
    case True
    then have "iteration (fst ?p) < limit (ws (fst ?p))"
      by (simp add: loop_again_def split: prod.splits)
    from "1.IH" [OF refl True this ne] True show ?thesis
      by (subst integrate_loop.simps) (simp add: Let_def)
  next
    case False
    with ne show ?thesis
      by (subst integrate_loop.simps) (simp add: Let_def)
  qed
qed

lemma loop_body_codes:
  "error_code st \<in> {0, 3, 4} \<Longrightarrow> error_code (fst (loop_body D f er ea st)) \<in> {0, 3, 4}"
  by (simp add: loop_body_def Let_def split: prod.splits if_splits)

lemma integrate_loop_codes:
  "error_code st \<in> {0, 3, 4} \<Longrightarrow> error_code (fst (integrate_loop D f er ea st)) \<in> {0, 3, 4}"
proof (induction D f er ea st rule: integrate_loop.induct)
  case (1 D f er ea st)
  let ?p = "loop_body D f er ea st"
  have c: "error_code (fst ?p) \<in> {0, 3, 4}" using "1.prems" by (rule loop_body_codes)
  show ?case
  proof (cases "loop_again ?p")
    case True
    from "1.IH" [OF refl True c] True show ?thesis
      by (subst integrate_loop.simps) (simp add: Let_def)
  next
    case False
    with c show ?thesis
      by (subst integrate_loop.simps) (simp add: Let_def)
  qed
qed

lemma loop_entry_fields:
  "neval (snd (loop_entry D w f a b s)) = 15"
  "iteration (snd (loop_entry D w f a b s)) = 1"
  "error_code (snd (loop_entry D w f a b s)) = 0"
  "size_w (ws (snd (loop_entry D w f a b s))) = 1"
  "limit (ws (snd (loop_entry D w f a b s))) = limit w"
  by (simp_all add: loop_entry_def Let_def wrap_int_def split: prod.splits)

lemma loop_entry_counting: "fs (snd (loop_entry D w (counting g) a b k)) = k + 15"
  by (simp add: loop_entry_def Let_def GaussKronrod15_calls eval_calls_counting
      length_gk15_points split: prod.splits)

lemma loop_entry_swap:
  "a \<noteq> b \<Longrightarrow> loop_entry D w f b a s
     = (- fst (loop_entry D w f a b s), snd (loop_entry D w f a b s))"
  by (cases "a < b") (auto simp add: loop_entry_def Let_def split: prod.splits)

lemma Integrate_valid:
  "\<not> invalid_tolerance D er ea \<Longrightarrow>
   GKWorkspace_Integrate D w f a b er ea pa pn s =
     (let e = loop_entry D w f a b s;
          l = integrate_loop D f er ea (snd e);
          r = SumResults (ws (fst l))
      in \<lparr>ret = fst e * fst r,
          abserr_cell = map_option (\<lambda>_. snd r) pa,
          neval_cell = map_option (\<lambda>_. neval (fst l)) pn,
          reported = (if snd r > snd l then ReportError (error_code (fst l)) [] else []),
          ws_out = ws (fst l), fs_out = fs (fst l)\<rparr>)"
  by (simp add: GKWorkspace_Integrate_def Let_def case_prod_beta)

lemma loop_passes_bound:
  "loop_passes D f er ea st \<le> max 1 (nat (limit (ws st) - iteration st))"
proof (induction D f er ea st rule: loop_passes.induct)
  case (1 D f er ea st)
  let ?p = "loop_body D f er ea st"
  show ?case
  proof (cases "loop_again ?p")
    case True
    then have lt: "iteration (fst ?p) < limit (ws (fst ?p))"
      by (simp add: loop_again_def split: prod.splits)
    from "1.IH" [OF refl True] lt True show ?thesis
      by (subst loop_passes.simps)
        (simp add: Let_def loop_body_iteration loop_body_limit)
  next
    case False
    then show ?thesis
      by (subst loop_passes.simps) (simp add: Let_def)
  qed
qed



lemma counters_within_limit:
  "iteration (fst (integrate_loop D f epsrel epsabs (snd (loop_entry D w f a b s))))
     \<le> max 2 (limit w)"
  "size_w (ws (fst (integrate_loop D f epsrel epsabs (snd (loop_entry D w f a b s)))))
     \<le> max 2 (limit w)"
  using loop_passes_bound [of D f epsrel epsabs "snd (loop_entry D w f a b s)"]
  by (simp_all add: integrate_loop_iteration integrate_loop_size loop_entry_fields)




text \<open>For \<open>limit \<ge> 2\<close> the store never holds more than \<open>limit\<close> entries.  With
  \<open>limit = 1\<close> the only pass still appends an entry, in slot 1.\<close>

lemma size_within_limit:
  assumes "\<not> invalid_tolerance D epsrel epsabs" and "2 \<le> limit w"
  shows "size_w (ws_out (GKWorkspace_Integrate D w f a b epsrel epsabs pabserr pneval s))
     \<le> limit w"
  using assms loop_passes_bound [of D f epsrel epsabs "snd (loop_entry D w f a b s)"]
  by (simp add: Integrate_valid Let_def integrate_loop_size loop_entry_fields)



lemma limit_never_reported:
  assumes "2 \<le> limit w"
  shows "4 \<notin> set (reported (GKWorkspace_Integrate D w f a b epsrel epsabs pabserr pneval s))"
proof (cases "invalid_tolerance D epsrel epsabs")
  case True
  then show ?thesis by (simp add: GKWorkspace_Integrate_def ReportError_def)
next
  case False
  have "error_code (fst (integrate_loop D f epsrel epsabs (snd (loop_entry D w f a b s)))) \<noteq> 4"
    by (rule integrate_loop_never_4) (use assms in \<open>simp_all add: loop_entry_fields\<close>)
  with False show ?thesis
    by (simp add: Integrate_valid Let_def ReportError_def)
qed

lemma loop_passes_limit_two:
  "iteration st = 1 \<Longrightarrow> limit (ws st) = 2 \<Longrightarrow> loop_passes D f er ea st = 1"
  by (subst loop_passes.simps)
    (simp add: Let_def loop_again_def loop_body_iteration loop_body_limit case_prod_beta)

lemma limit_reported_codes:
  assumes "2 \<le> limit w"
  shows "set (reported (GKWorkspace_Integrate D w f a b epsrel epsabs pabserr pneval s)) \<subseteq> {0, 1, 3}"
proof (cases "invalid_tolerance D epsrel epsabs")
  case True
  then show ?thesis by (simp add: GKWorkspace_Integrate_def ReportError_def)
next
  case False
  let ?l = "integrate_loop D f epsrel epsabs (snd (loop_entry D w f a b s))"
  have "error_code (fst ?l) \<noteq> 4"
    by (rule integrate_loop_never_4) (use assms in \<open>simp_all add: loop_entry_fields\<close>)
  moreover have "error_code (fst ?l) \<in> {0, 3, 4}"
    by (rule integrate_loop_codes) (simp add: loop_entry_fields)
  ultimately have "error_code (fst ?l) = 0 \<or> error_code (fst ?l) = 3" by blast
  with False show ?thesis
    by (auto simp add: Integrate_valid Let_def ReportError_def)
qed

subsection \<open>A run with \<open>limit = 2\<close>\<close>

lemma GaussKronrod15_counting:
  "GaussKronrod15 D (counting g) a b k =
     (let ys = map g (gk15_points D a b)
      in (GaussKronrod D 8 (wg15 D) (wgk15 D) (ys ! 0)
            [Some (ys ! 7), Some (ys ! 1), Some (ys ! 9), Some (ys ! 3),
             Some (ys ! 11), Some (ys ! 5), Some (ys ! 13), None]
            [Some (ys ! 8), Some (ys ! 2), Some (ys ! 10), Some (ys ! 4),
             Some (ys ! 12), Some (ys ! 6), Some (ys ! 14), None]
            (0.5 * (b - a)), k + 15))"
  by (simp add: GaussKronrod15_calls eval_calls_counting length_gk15_points Let_def)

lemma upt_small: "[0..<7] = [0, 1, 2, 3, 4, 5, 6]" "[0..<3] = [0, 1, 2]" "[0..<2] = [0, 1]"
  by (simp_all add: upt_rec)

lemma demo_rule_whole:
  "GaussKronrod15 demo_deps (counting recip) 0 1 k =
     ((881299499939092732033 / 140658984293938260150,
       4817213312058511079 / 4688632809797942005,
       881299499939092732033 / 140658984293938260150, 0), k + 15)"
  by (simp add: GaussKronrod15_counting gk15_points_def demo_deps_def Let_def demo_rule_def
      upt_small recip_def)

lemma demo_rule_left:
  "GaussKronrod15 demo_deps (counting recip) 0 (1 / 2) k =
     ((881299499939092732033 / 140658984293938260150,
       4817213312058511079 / 4688632809797942005,
       881299499939092732033 / 140658984293938260150, 0), k + 15)"
  by (simp add: GaussKronrod15_counting gk15_points_def demo_deps_def Let_def demo_rule_def
      upt_small recip_def)

lemma demo_rule_right:
  "GaussKronrod15 demo_deps (counting recip) (1 / 2) 1 k =
     ((43273239876170595107606709 / 62494736575064481887587850,
       5068873100265602000839 / 6249473657506448188758785,
       43273239876170595107606709 / 62494736575064481887587850, 0), k + 15)"
  by (simp add: GaussKronrod15_counting gk15_points_def demo_deps_def Let_def demo_rule_def
      upt_small recip_def)

lemma demo_entry:
  "demo_entry_state =
     \<lparr>ws = \<lparr>limit = 2, size_w = 1,
              alist = (\<lambda>k. 0)(0 := 0), blist = (\<lambda>k. 0)(0 := 1),
              rlist = (\<lambda>k. 0)(0 := 881299499939092732033 / 140658984293938260150),
              elist = (\<lambda>k. 0)(0 := 4817213312058511079 / 4688632809797942005),
              order = (\<lambda>k. 0)(0 := 0)\<rparr>,
          fs = 15, area = 881299499939092732033 / 140658984293938260150,
          errsum = 4817213312058511079 / 4688632809797942005,
          iteration = 1, error_code = 0, neval = 15\<rparr>"
  by (simp add: demo_entry_state_def loop_entry_def demo_rule_whole Let_def demo_ws_def
      wrap_int_def)

lemma demo_consts:
  "DBL_EPSILON demo_deps = 1 / 2 ^ 52" "DBL_MIN demo_deps = 1 / 2 ^ 1022"
  by (simp_all add: demo_deps_def)

lemma demo_pass:
  "loop_body demo_deps (counting recip) (1 / 1000000) 0 demo_entry_state =
     (\<lparr>ws = Update (ws demo_entry_state)
             0 (1 / 2) (881299499939092732033 / 140658984293938260150)
             (4817213312058511079 / 4688632809797942005)
             (1 / 2) 1 (43273239876170595107606709 / 62494736575064481887587850)
             (5068873100265602000839 / 6249473657506448188758785),
       fs = 45,
       area = 79109364854265223090743555911500331078 / 11369661940282173047562136927296138675,
       errsum = 779378931883548543664978365067332394 / 757977462685478203170809128486409245,
       iteration = 2, error_code = 0, neval = 45\<rparr>,
      39554682427132611545371777955750165539 / 5684830970141086523781068463648069337500000)"
  by (simp add: loop_body_def demo_entry GetMaxInterval_def demo_rule_left demo_rule_right
      Let_def demo_consts wrap_int_def)

lemma demo_loop:
  "integrate_loop demo_deps (counting recip) (1 / 1000000) 0 demo_entry_state =
   loop_body demo_deps (counting recip) (1 / 1000000) 0 demo_entry_state"
  by (subst integrate_loop.simps)
    (simp add: Let_def loop_again_def demo_pass Update_fields, simp add: demo_entry)

lemma demo_sum:
  "SumResults (Update (ws demo_entry_state)
             0 (1 / 2) (881299499939092732033 / 140658984293938260150)
             (4817213312058511079 / 4688632809797942005)
             (1 / 2) 1 (43273239876170595107606709 / 62494736575064481887587850)
             (5068873100265602000839 / 6249473657506448188758785)) =
    (79109364854265223090743555911500331078 / 11369661940282173047562136927296138675,
     779378931883548543664978365067332394 / 757977462685478203170809128486409245)"
  by (simp add: SumResults_def live_order_def Update_fields demo_entry
      upt_small store_order_def Let_def)

lemma demo_run_limit_two:
  "reported (GKWorkspace_Integrate demo_deps (demo_ws 2) (counting recip) 0 1 (1 / 1000000) 0
      (Some 0) (Some 0) 0) = [0]
   \<and> neval_cell (GKWorkspace_Integrate demo_deps (demo_ws 2) (counting recip) 0 1 (1 / 1000000) 0
      (Some 0) (Some 0) 0) = Some 45
   \<and> fs_out (GKWorkspace_Integrate demo_deps (demo_ws 2) (counting recip) 0 1 (1 / 1000000) 0
      (Some 0) (Some 0) 0) = 45"
proof -
  have "\<not> invalid_tolerance demo_deps (1 / 1000000) 0"
    by (simp add: invalid_tolerance_def demo_consts)
  note run = Integrate_valid [OF this, of "demo_ws 2" "counting recip" 0 1 "Some 0" "Some 0" 0]
  have l: "integrate_loop demo_deps (counting recip) (1 / 1000000) 0
      (snd (loop_entry demo_deps (demo_ws 2) (counting recip) 0 1 0))
      = loop_body demo_deps (counting recip) (1 / 1000000) 0 demo_entry_state"
    by (simp only: demo_loop demo_entry_state_def [symmetric])
  show ?thesis
    by (simp add: run Let_def l demo_pass demo_sum ReportError_def)
qed

text \<open>
  C4.  With \<open>limit = 2\<close> the loop makes one pass and no more: the pass starts with
  \<open>iteration = 1\<close>, so the test \<open>iteration == limit\<close> fails in it, and the guard
  \<open>iteration < limit\<close> stops the loop after it.  Code 4 (subdivision limit) is
  therefore never reported, for any integrand, bounds and tolerances; the codes that
  can be reported are 0, 1 and 3.  The same holds for every \<open>limit \<ge> 2\<close>.  On the
  concrete instance, the integrand \<open>1/x\<close> from 0 to 1 with \<open>epsrel = 10\<^sup>-\<^sup>6\<close> misses
  the tolerance after its only pass, and the code reported is 0.
\<close>

theorem limit_two_never_reports_subdivision_limit:
  "4 \<notin> set (reported
      (GKWorkspace_Integrate D (w\<lparr>limit := 2\<rparr>) f a b epsrel epsabs pabserr pneval s))
   \<and> set (reported
      (GKWorkspace_Integrate D (w\<lparr>limit := 2\<rparr>) f a b epsrel epsabs pabserr pneval s))
       \<subseteq> {0, 1, 3}
   \<and> Integrate_passes D (w\<lparr>limit := 2\<rparr>) f a b epsrel epsabs s \<le> 1
   \<and> reported (GKWorkspace_Integrate demo_deps (demo_ws 2) (counting recip) 0 1
        (1 / 10 ^ 6) 0 (Some 0) (Some 0) 0) = [0]"
  using limit_reported_codes [of "w\<lparr>limit := 2\<rparr>" D f a b epsrel epsabs pabserr pneval s]
    demo_run_limit_two
  by (simp add: limit_never_reported Integrate_passes_def loop_passes_limit_two
      loop_entry_fields)

subsection \<open>Two runs side by side\<close>

text \<open>
  If two integrands return the same values, and two workspaces have the same
  \<open>limit\<close>, the two runs go through the same passes: the workspaces keep agreeing on
  their live slots, and the states of the integrands stay related.
\<close>

lemma eval_calls_sim:
  "sim_calls R f f' \<Longrightarrow> R s t \<Longrightarrow>
   fst (eval_calls f xs s) = fst (eval_calls f' xs t)
   \<and> R (snd (eval_calls f xs s)) (snd (eval_calls f' xs t))"
proof (induction xs arbitrary: s t)
  case Nil
  then show ?case by simp
next
  case (Cons x xs)
  from Cons.prems have v: "fst (f x s) = fst (f' x t)" and r: "R (snd (f x s)) (snd (f' x t))"
    by (auto simp: sim_calls_def)
  from Cons.IH [OF Cons.prems(1) r] v show ?case
    by (simp add: case_prod_beta)
qed

lemma GaussKronrod15_sim:
  assumes "sim_calls R f f'" and "R s t"
  shows "fst (GaussKronrod15 D f a b s) = fst (GaussKronrod15 D f' a b t)
   \<and> R (snd (GaussKronrod15 D f a b s)) (snd (GaussKronrod15 D f' a b t))"
  using eval_calls_sim [OF assms, of "gk15_points D a b"]
  by (simp add: GaussKronrod15_calls case_prod_beta)

lemma set_insert_by_error: "set (insert_by_error el i js) = insert i (set js)"
  by (induction js) auto

lemma length_insert_by_error: "length (insert_by_error el i js) = Suc (length js)"
  by (induction js) auto

lemma insert_by_error_cong:
  "el (nat i) = el' (nat i) \<Longrightarrow> (\<And>j. j \<in> set js \<Longrightarrow> el (nat j) = el' (nat j))
    \<Longrightarrow> insert_by_error el i js = insert_by_error el' i js"
  by (induction js) auto

lemma sim_ws_size:
  assumes "sim_ws w w'"
  shows "limit w = limit w'" and "size_w w = size_w w'" and "1 \<le> size_w w"
  using assms unfolding sim_ws_def by blast+

lemma sim_ws_arrays:
  "sim_ws w w' \<Longrightarrow> k < nat (size_w w) \<Longrightarrow>
   alist w k = alist w' k \<and> blist w k = blist w' k \<and> rlist w k = rlist w' k \<and>
   elist w k = elist w' k"
  unfolding sim_ws_def by blast

lemma sim_ws_order: "sim_ws w w' \<Longrightarrow> k < nat (size_w w) \<Longrightarrow> order w k = order w' k"
  unfolding sim_ws_def by blast

lemma sim_ws_range:
  "sim_ws w w' \<Longrightarrow> k < nat (size_w w) \<Longrightarrow> 0 \<le> order w k \<and> order w k < size_w w"
  unfolding sim_ws_def by blast

lemma live_order_sim:
  assumes "sim_ws w w'"
  shows "live_order w = live_order w'"
proof -
  have "map (order w) [0..<nat (size_w w)] = map (order w') [0..<nat (size_w w)]"
    by (rule map_cong [OF refl]) (simp add: sim_ws_order [OF assms])
  then show ?thesis
    using sim_ws_size(2) [OF assms] by (simp add: live_order_def)
qed

lemma live_order_range:
  assumes "sim_ws w w'" and "j \<in> set (live_order w)"
  shows "0 \<le> j \<and> j < size_w w"
proof -
  from assms(2) obtain k where "k < nat (size_w w)" and "j = order w k"
    by (auto simp: live_order_def)
  then show ?thesis using sim_ws_range [OF assms(1)] by blast
qed

lemma live_slot:
  assumes "sim_ws w w'" and "j \<in> set (live_order w)"
  shows "nat j < nat (size_w w)"
  using live_order_range [OF assms] by simp

lemma length_live_order: "length (live_order w) = nat (size_w w)"
  by (simp add: live_order_def)

lemma order_0_live:
  assumes "sim_ws w w'"
  shows "order w 0 = order w' 0" and "nat (order w 0) < nat (size_w w)"
    and "0 \<le> order w 0" and "order w 0 < size_w w"
proof -
  have 0: "0 < nat (size_w w)" using sim_ws_size(3) [OF assms] by simp
  show "order w 0 = order w' 0" by (rule sim_ws_order [OF assms 0])
  show "0 \<le> order w 0" "order w 0 < size_w w" using sim_ws_range [OF assms 0] by blast+
  then show "nat (order w 0) < nat (size_w w)" by simp
qed

lemma GetMaxInterval_sim:
  assumes "sim_ws w w'"
  shows "GetMaxInterval w = GetMaxInterval w'"
  using sim_ws_arrays [OF assms order_0_live(2) [OF assms]] order_0_live(1) [OF assms]
  by (simp add: GetMaxInterval_def Let_def)

lemma SumResults_sim:
  assumes "sim_ws w w'"
  shows "SumResults w = SumResults w'"
proof -
  have eq: "live_order w = live_order w'" using assms by (rule live_order_sim)
  have slots: "\<And>j. j \<in> set (rev (live_order w)) \<Longrightarrow>
      rlist w (nat j) = rlist w' (nat j) \<and> elist w (nat j) = elist w' (nat j)"
    using sim_ws_arrays [OF assms live_slot [OF assms]] by simp
  have "fold (\<lambda>j acc. acc + rlist w (nat j)) (rev (live_order w)) 0
      = fold (\<lambda>j acc. acc + rlist w' (nat j)) (rev (live_order w)) 0"
    by (rule fold_cong) (simp_all add: slots)
  moreover have "fold (\<lambda>j acc. acc + elist w (nat j)) (rev (live_order w)) 0
      = fold (\<lambda>j acc. acc + elist w' (nat j)) (rev (live_order w)) 0"
    by (rule fold_cong) (simp_all add: slots)
  ultimately show ?thesis by (simp add: SumResults_def Let_def eq)
qed


lemma upd2_agree:
  assumes "\<And>k. k < N \<Longrightarrow> A k = B k" and "k < Suc N"
  shows "(A(i := x, N := y)) k = (B(i := x, N := y)) k"
  using assms by (auto simp: less_Suc_eq)

lemma Update_sim:
  assumes sim: "sim_ws w w'"
  shows "sim_ws (Update w a1 b1 r1 e1 a2 b2 r2 e2) (Update w' a1 b1 r1 e1 a2 b2 r2 e2)"
proof -
  let ?n = "size_w w" and ?m = "order w 0"
  let ?el = "(elist w)(nat ?m := e1, nat ?n := e2)"
  let ?el' = "(elist w')(nat ?m := e1, nat ?n := e2)"
  let ?L = "tl (live_order w)"
  let ?js = "insert_by_error ?el ?n (insert_by_error ?el ?m ?L)"
  let ?js' = "insert_by_error ?el' ?n (insert_by_error ?el' ?m ?L)"
  note sz = sim_ws_size [OF sim]
  note m = order_0_live [OF sim]
  have N: "nat (?n + 1) = Suc (nat ?n)" using sz(3) by simp
  have arr: "\<And>k. k < nat ?n \<Longrightarrow> alist w k = alist w' k \<and> blist w k = blist w' k
      \<and> rlist w k = rlist w' k \<and> elist w k = elist w' k"
    by (rule sim_ws_arrays [OF sim])
  have el: "\<And>k. k < Suc (nat ?n) \<Longrightarrow> ?el k = ?el' k"
    by (rule upd2_agree) (simp_all add: arr)
  have L: "\<And>j. j \<in> set ?L \<Longrightarrow> 0 \<le> j \<and> j < ?n"
    using live_order_range [OF sim] by (cases "live_order w") auto
  have lenL: "Suc (length ?L) = nat ?n"
    using sz(3) by (simp add: length_live_order)
  have Lslot: "\<And>j. j \<in> set ?L \<Longrightarrow> nat j < nat ?n"
  proof -
    fix j assume "j \<in> set ?L"
    from L [OF this] show "nat j < nat ?n" by simp
  qed
  have in1: "insert_by_error ?el ?m ?L = insert_by_error ?el' ?m ?L"
  proof (rule insert_by_error_cong)
    show "?el (nat ?m) = ?el' (nat ?m)" by (rule el, rule less_SucI, rule m(2))
    show "\<And>j. j \<in> set ?L \<Longrightarrow> ?el (nat j) = ?el' (nat j)"
      by (rule el, rule less_SucI, rule Lslot)
  qed
  have js: "?js = ?js'"
    unfolding in1
  proof (rule insert_by_error_cong)
    show "?el (nat ?n) = ?el' (nat ?n)" by (rule el) simp
    fix j assume "j \<in> set (insert_by_error ?el' ?m ?L)"
    then have "j = ?m \<or> j \<in> set ?L" by (simp add: set_insert_by_error)
    then have "nat j < nat ?n" using m(2) Lslot by blast
    then show "?el (nat j) = ?el' (nat j)" by (rule el [OF less_SucI])
  qed
  have len: "length ?js = Suc (nat ?n)"
    using lenL by (simp add: length_insert_by_error)
  have rng: "\<And>j. j \<in> set ?js \<Longrightarrow> 0 \<le> j \<and> j < ?n + 1"
  proof -
    fix j assume "j \<in> set ?js"
    then have "j = ?n \<or> j = ?m \<or> j \<in> set ?L" by (simp add: set_insert_by_error)
    then show "0 \<le> j \<and> j < ?n + 1"
      using L [of j] m(3,4) sz(3) by fastforce
  qed
  have ord: "\<And>k. k < Suc (nat ?n) \<Longrightarrow>
      store_order ?js (order w) k = store_order ?js' (order w') k
      \<and> 0 \<le> store_order ?js (order w) k \<and> store_order ?js (order w) k < ?n + 1"
  proof -
    fix k assume k: "k < Suc (nat ?n)"
    then have "?js ! k \<in> set ?js" using len by simp
    from rng [OF this] k len js show "store_order ?js (order w) k = store_order ?js' (order w') k
      \<and> 0 \<le> store_order ?js (order w) k \<and> store_order ?js (order w) k < ?n + 1"
      by (simp add: store_order_def)
  qed
  have eqs: "size_w w' = ?n" "order w' 0 = ?m" "live_order w' = live_order w" "limit w' = limit w"
    using sz(1,2) m(1) live_order_sim [OF sim] by simp_all
  show ?thesis
    unfolding sim_ws_def Update_fields eqs N
  proof (intro conjI allI impI)
    show "limit w = limit w" by simp
    show "?n + 1 = ?n + 1" by simp
    show "1 \<le> ?n + 1" using sz(3) by simp
  next
    fix k assume k: "k < Suc (nat ?n)"
    show "((alist w)(nat ?m := a1, nat ?n := a2)) k = ((alist w')(nat ?m := a1, nat ?n := a2)) k"
      by (rule upd2_agree [OF _ k]) (simp add: arr)
    show "((blist w)(nat ?m := b1, nat ?n := b2)) k = ((blist w')(nat ?m := b1, nat ?n := b2)) k"
      by (rule upd2_agree [OF _ k]) (simp add: arr)
    show "((rlist w)(nat ?m := r1, nat ?n := r2)) k = ((rlist w')(nat ?m := r1, nat ?n := r2)) k"
      by (rule upd2_agree [OF _ k]) (simp add: arr)
    show "?el k = ?el' k" by (rule el [OF k])
    show "store_order ?js (order w) k = store_order ?js' (order w') k"
      "0 \<le> store_order ?js (order w) k" "store_order ?js (order w) k < ?n + 1"
      using ord [OF k] by blast+
  qed
qed


lemma loop_body_sim:
  assumes calls: "sim_calls R f f'" and run: "sim_run R st st'"
  shows "sim_run R (fst (loop_body D f er ea st)) (fst (loop_body D f' er ea st'))
   \<and> snd (loop_body D f er ea st) = snd (loop_body D f' er ea st')"
proof -
  from run have w: "sim_ws (ws st) (ws st')" and s: "R (fs st) (fs st')"
    and eqs: "area st = area st'" "errsum st = errsum st'" "iteration st = iteration st'"
      "error_code st = error_code st'" "neval st = neval st'"
    unfolding sim_run_def by blast+
  have g: "GetMaxInterval (ws st) = GetMaxInterval (ws st')"
    using w by (rule GetMaxInterval_sim)
  obtain a_i b_i r_i e_i where gm: "GetMaxInterval (ws st') = (a_i, b_i, r_i, e_i)"
    by (cases "GetMaxInterval (ws st')") auto
  let ?b1 = "0.5 * (a_i + b_i)"
  let ?k1 = "GaussKronrod15 D f a_i ?b1 (fs st)"
  let ?k1' = "GaussKronrod15 D f' a_i ?b1 (fs st')"
  have k1: "fst ?k1 = fst ?k1'" "R (snd ?k1) (snd ?k1')"
    using GaussKronrod15_sim [OF calls s, of D a_i ?b1] by blast+
  let ?k2 = "GaussKronrod15 D f ?b1 b_i (snd ?k1)"
  let ?k2' = "GaussKronrod15 D f' ?b1 b_i (snd ?k1')"
  have k2: "fst ?k2 = fst ?k2'" "R (snd ?k2) (snd ?k2')"
    using GaussKronrod15_sim [OF calls k1(2), of D ?b1 b_i] by blast+
  have lim: "limit (ws st) = limit (ws st')" using w by (rule sim_ws_size(1))
  note upd = Update_sim [OF w]
  show ?thesis
    using k1 k2 upd
    by (simp add: loop_body_def g gm Let_def case_prod_beta sim_run_def eqs lim)
qed


lemma loop_again_sim:
  "sim_run R (fst p) (fst p') \<Longrightarrow> snd p = snd p' \<Longrightarrow> loop_again p = loop_again p'"
  using sim_ws_size(1) [of "ws (fst p)" "ws (fst p')"]
  by (simp add: loop_again_def sim_run_def case_prod_beta)

lemma integrate_loop_sim:
  "sim_calls R f f' \<Longrightarrow> sim_run R st st' \<Longrightarrow>
   sim_run R (fst (integrate_loop D f er ea st)) (fst (integrate_loop D f' er ea st'))
   \<and> snd (integrate_loop D f er ea st) = snd (integrate_loop D f' er ea st')"
proof (induction D f er ea st arbitrary: st' rule: integrate_loop.induct)
  case (1 D f er ea st)
  let ?p = "loop_body D f er ea st" and ?p' = "loop_body D f' er ea st'"
  from loop_body_sim [OF "1.prems", of D er ea]
  have body: "sim_run R (fst ?p) (fst ?p')" "snd ?p = snd ?p'" by blast+
  then have again: "loop_again ?p = loop_again ?p'" by (rule loop_again_sim)
  show ?case
  proof (cases "loop_again ?p")
    case True
    from "1.IH" [OF refl True "1.prems"(1) body(1)] True again show ?thesis
      by (subst integrate_loop.simps, subst (2) integrate_loop.simps,
          subst (3) integrate_loop.simps, subst (4) integrate_loop.simps)
        (simp add: Let_def)
  next
    case False
    with body again show ?thesis
      by (subst integrate_loop.simps, subst (2) integrate_loop.simps,
          subst (3) integrate_loop.simps, subst (4) integrate_loop.simps)
        (simp add: Let_def)
  qed
qed

lemma loop_entry_sim:
  assumes lim: "limit w = limit w'" and calls: "sim_calls R f f'" and s: "R s t"
  shows "fst (loop_entry D w f a b s) = fst (loop_entry D w' f' a b t)
   \<and> sim_run R (snd (loop_entry D w f a b s)) (snd (loop_entry D w' f' a b t))"
proof -
  obtain lo hi where lh: "(if a > b then (b, a) else (a, b)) = (lo, hi)"
    by (cases "a > b") auto
  let ?k = "GaussKronrod15 D f lo hi s" and ?k' = "GaussKronrod15 D f' lo hi t"
  have k: "fst ?k = fst ?k'" "R (snd ?k) (snd ?k')"
    using GaussKronrod15_sim [OF calls s, of D lo hi] by blast+
  from lh have "(a > b \<and> lo = b \<and> hi = a) \<or> (\<not> a > b \<and> lo = a \<and> hi = b)"
    by (auto split: if_splits)
  then show ?thesis
    using k lim
    by (auto simp add: loop_entry_def Let_def case_prod_beta sim_run_def sim_ws_def)
qed

lemma Integrate_sim:
  assumes lim: "limit w = limit w'" and calls: "sim_calls R f f'" and s: "R s t"
  shows "ret (GKWorkspace_Integrate D w f a b er ea pa pn s)
           = ret (GKWorkspace_Integrate D w' f' a b er ea pa pn t)
   \<and> abserr_cell (GKWorkspace_Integrate D w f a b er ea pa pn s)
       = abserr_cell (GKWorkspace_Integrate D w' f' a b er ea pa pn t)
   \<and> neval_cell (GKWorkspace_Integrate D w f a b er ea pa pn s)
       = neval_cell (GKWorkspace_Integrate D w' f' a b er ea pa pn t)
   \<and> reported (GKWorkspace_Integrate D w f a b er ea pa pn s)
       = reported (GKWorkspace_Integrate D w' f' a b er ea pa pn t)
   \<and> R (fs_out (GKWorkspace_Integrate D w f a b er ea pa pn s))
       (fs_out (GKWorkspace_Integrate D w' f' a b er ea pa pn t))"
proof (cases "invalid_tolerance D er ea")
  case True
  then show ?thesis using s by (simp add: GKWorkspace_Integrate_def)
next
  case False
  let ?e = "loop_entry D w f a b s" and ?e' = "loop_entry D w' f' a b t"
  from loop_entry_sim [OF lim calls s, of D a b]
  have e: "fst ?e = fst ?e'" "sim_run R (snd ?e) (snd ?e')" by blast+
  let ?l = "integrate_loop D f er ea (snd ?e)" and ?l' = "integrate_loop D f' er ea (snd ?e')"
  from integrate_loop_sim [OF calls e(2), of D er ea]
  have l: "sim_run R (fst ?l) (fst ?l')" "snd ?l = snd ?l'" by blast+
  from l(1) have w: "sim_ws (ws (fst ?l)) (ws (fst ?l'))" and r: "R (fs (fst ?l)) (fs (fst ?l'))"
    and eqs: "error_code (fst ?l) = error_code (fst ?l')" "neval (fst ?l) = neval (fst ?l')"
    unfolding sim_run_def by blast+
  have sr: "SumResults (ws (fst ?l)) = SumResults (ws (fst ?l'))"
    using w by (rule SumResults_sim)
  show ?thesis
    using False e(1) l(2) r eqs sr by (simp add: Integrate_valid Let_def)
qed

lemma sim_calls_eq: "sim_calls (=) f f"
  by (simp add: sim_calls_def)

text \<open>
  C10.  The outcome of a call does not depend on what the workspace held before it:
  replacing \<open>size\<close> and the five arrays of the workspace by arbitrary other contents
  changes neither the result, nor the stored \<open>abserr\<close> and \<open>neval\<close>, nor the codes
  reported, nor the state in which the integrand is left.  The call sets \<open>size\<close>,
  slot 0 of the four lists and \<open>order[0]\<close> before it reads any of them, and the
  operations on the store read live slots only.
\<close>

theorem stale_workspace_contents_do_not_matter:
  "ret (GKWorkspace_Integrate D
          (w\<lparr>size_w := n, alist := al, blist := bl, rlist := rl, elist := el, order := ord\<rparr>)
          f a b epsrel epsabs pabserr pneval s)
     = ret (GKWorkspace_Integrate D w f a b epsrel epsabs pabserr pneval s)
   \<and> abserr_cell (GKWorkspace_Integrate D
          (w\<lparr>size_w := n, alist := al, blist := bl, rlist := rl, elist := el, order := ord\<rparr>)
          f a b epsrel epsabs pabserr pneval s)
     = abserr_cell (GKWorkspace_Integrate D w f a b epsrel epsabs pabserr pneval s)
   \<and> neval_cell (GKWorkspace_Integrate D
          (w\<lparr>size_w := n, alist := al, blist := bl, rlist := rl, elist := el, order := ord\<rparr>)
          f a b epsrel epsabs pabserr pneval s)
     = neval_cell (GKWorkspace_Integrate D w f a b epsrel epsabs pabserr pneval s)
   \<and> reported (GKWorkspace_Integrate D
          (w\<lparr>size_w := n, alist := al, blist := bl, rlist := rl, elist := el, order := ord\<rparr>)
          f a b epsrel epsabs pabserr pneval s)
     = reported (GKWorkspace_Integrate D w f a b epsrel epsabs pabserr pneval s)
   \<and> fs_out (GKWorkspace_Integrate D
          (w\<lparr>size_w := n, alist := al, blist := bl, rlist := rl, elist := el, order := ord\<rparr>)
          f a b epsrel epsabs pabserr pneval s)
     = fs_out (GKWorkspace_Integrate D w f a b epsrel epsabs pabserr pneval s)"
  using Integrate_sim [OF _ sim_calls_eq refl, where
      w = "w\<lparr>size_w := n, alist := al, blist := bl, rlist := rl, elist := el, order := ord\<rparr>"
      and w' = w and f = f and s = s and D = D and a = a and b = b and er = epsrel
      and ea = epsabs and pa = pabserr and pn = pneval]
  by simp

subsection \<open>Swapping the bounds\<close>

text \<open>When the rule gives the estimate 0 on an interval of width zero, so does the
  whole integration: every entry of the store is such an interval.\<close>

lemma GaussKronrod15_point:
  assumes "\<And>fc fv1 fv2. fst (GaussKronrod D 8 (wg15 D) (wgk15 D) fc fv1 fv2 0) = 0"
  shows "fst (fst (GaussKronrod15 D f c c s)) = 0"
  using assms by (simp add: GaussKronrod15_calls case_prod_beta)

lemma point_run_slot:
  "point_run c st \<Longrightarrow> k < nat (size_w (ws st))
    \<Longrightarrow> alist (ws st) k = c \<and> blist (ws st) k = c \<and> rlist (ws st) k = 0"
  unfolding point_run_def by blast

lemma point_run_ws: "point_run c st \<Longrightarrow> sim_ws (ws st) (ws st)"
  unfolding point_run_def by blast

lemma loop_body_ws:
  "ws (fst (loop_body D f er ea st)) =
     (let g = GetMaxInterval (ws st);
          a1 = fst g; b2 = fst (snd g); b1 = 0.5 * (a1 + b2);
          k1 = GaussKronrod15 D f a1 b1 (fs st);
          k2 = GaussKronrod15 D f b1 b2 (snd k1)
      in Update (ws st) a1 b1 (fst (fst k1)) (fst (snd (fst k1)))
           b1 b2 (fst (fst k2)) (fst (snd (fst k2))))"
  by (simp add: loop_body_def Let_def case_prod_beta)

lemma loop_body_point:
  assumes rule: "\<And>fc fv1 fv2. fst (GaussKronrod D 8 (wg15 D) (wgk15 D) fc fv1 fv2 0) = 0"
    and pt: "point_run c st"
  shows "point_run c (fst (loop_body D f er ea st))"
proof -
  let ?w = "ws st"
  note w = point_run_ws [OF pt]
  note m = order_0_live [OF w]
  from point_run_slot [OF pt m(2)]
  have g: "GetMaxInterval ?w = (c, c, 0, elist ?w (nat (order ?w 0)))"
    by (simp add: GetMaxInterval_def Let_def)
  have mid: "0.5 * (c + c) = c" by simp
  let ?k1 = "GaussKronrod15 D f c c (fs st)"
  let ?k2 = "GaussKronrod15 D f c c (snd ?k1)"
  have r: "fst (fst ?k1) = 0" "fst (fst ?k2) = 0"
    using rule by (rule GaussKronrod15_point)+
  let ?u = "Update ?w c c 0 (fst (snd (fst ?k1))) c c 0 (fst (snd (fst ?k2)))"
  have wsq: "ws (fst (loop_body D f er ea st)) = ?u"
    by (simp add: loop_body_ws g Let_def r)
  have sim: "sim_ws ?u ?u" by (rule Update_sim [OF w])
  have N: "nat (size_w ?w + 1) = Suc (nat (size_w ?w))"
    using sim_ws_size(3) [OF w] by simp
  have slots: "\<And>k. k < Suc (nat (size_w ?w)) \<Longrightarrow>
      alist ?u k = c \<and> blist ?u k = c \<and> rlist ?u k = 0"
    using point_run_slot [OF pt] by (auto simp add: Update_fields less_Suc_eq)
  show ?thesis
    unfolding point_run_def wsq using sim slots by (simp add: Update_fields(2) N)
qed

lemma integrate_loop_point:
  assumes rule: "\<And>fc fv1 fv2. fst (GaussKronrod D 8 (wg15 D) (wgk15 D) fc fv1 fv2 0) = 0"
  shows "point_run c st \<Longrightarrow> point_run c (fst (integrate_loop D f er ea st))"
  using rule
proof (induction D f er ea st rule: integrate_loop.induct)
  case (1 D f er ea st)
  let ?p = "loop_body D f er ea st"
  have p: "point_run c (fst ?p)" by (rule loop_body_point [OF "1.prems"(2) "1.prems"(1)])
  show ?case
  proof (cases "loop_again ?p")
    case True
    from "1.IH" [OF refl True p "1.prems"(2)] True show ?thesis
      by (subst integrate_loop.simps) (simp add: Let_def)
  next
    case False
    with p show ?thesis
      by (subst integrate_loop.simps) (simp add: Let_def)
  qed
qed

lemma fold_add_zero:
  "(\<And>j. j \<in> set js \<Longrightarrow> g j = 0) \<Longrightarrow> fold (\<lambda>j acc. acc + g j) js (z::'r::linordered_field) = z"
  by (induction js arbitrary: z) simp_all

lemma SumResults_point:
  assumes "point_run c st"
  shows "fst (SumResults (ws st)) = 0"
proof -
  note w = point_run_ws [OF assms]
  have z: "\<And>j. j \<in> set (rev (live_order (ws st))) \<Longrightarrow> rlist (ws st) (nat j) = 0"
    using point_run_slot [OF assms live_slot [OF w]] by simp
  have "fold (\<lambda>j acc. acc + rlist (ws st) (nat j)) (rev (live_order (ws st))) 0 = 0"
    by (rule fold_add_zero) (rule z)
  then show ?thesis
    by (simp add: SumResults_def Let_def)
qed

lemma loop_entry_point:
  assumes rule: "\<And>fc fv1 fv2. fst (GaussKronrod D 8 (wg15 D) (wgk15 D) fc fv1 fv2 0) = 0"
  shows "point_run c (snd (loop_entry D w f c c s))"
  using GaussKronrod15_point [OF rule, of f c s]
  by (simp add: loop_entry_def Let_def case_prod_beta point_run_def sim_ws_def)

lemma Integrate_point:
  assumes rule: "\<And>fc fv1 fv2. fst (GaussKronrod D 8 (wg15 D) (wgk15 D) fc fv1 fv2 0) = 0"
  shows "ret (GKWorkspace_Integrate D w f c c er ea pa pn s) = 0"
proof (cases "invalid_tolerance D er ea")
  case True
  then show ?thesis by (simp add: GKWorkspace_Integrate_def)
next
  case False
  have "point_run c (fst (integrate_loop D f er ea (snd (loop_entry D w f c c s))))"
    by (rule integrate_loop_point [OF rule loop_entry_point [OF rule]])
  from SumResults_point [OF this] False show ?thesis
    by (simp add: Integrate_valid Let_def)
qed

text \<open>
  C3.  The call with the bounds swapped returns the negation of the result, and stores
  the same \<open>abserr\<close> and the same \<open>neval\<close>; it also reports the same codes and leaves
  the integrand and the workspace in the same state.  The tolerances need not be valid.
  For \<open>a = b\<close> the two calls are one and the same, and the statement is that the
  result is 0; this is where the general rule comes in, which is taken to return the
  estimate 0 when its half-width argument is 0.
\<close>

theorem swapped_bounds_negate:
  assumes "\<And>fc fv1 fv2. a = b \<Longrightarrow> fst (GaussKronrod D 8 (wg15 D) (wgk15 D) fc fv1 fv2 0) = 0"
  shows "ret (GKWorkspace_Integrate D w f b a epsrel epsabs pabserr pneval s)
           = - ret (GKWorkspace_Integrate D w f a b epsrel epsabs pabserr pneval s)
   \<and> abserr_cell (GKWorkspace_Integrate D w f b a epsrel epsabs pabserr pneval s)
       = abserr_cell (GKWorkspace_Integrate D w f a b epsrel epsabs pabserr pneval s)
   \<and> neval_cell (GKWorkspace_Integrate D w f b a epsrel epsabs pabserr pneval s)
       = neval_cell (GKWorkspace_Integrate D w f a b epsrel epsabs pabserr pneval s)
   \<and> reported (GKWorkspace_Integrate D w f b a epsrel epsabs pabserr pneval s)
       = reported (GKWorkspace_Integrate D w f a b epsrel epsabs pabserr pneval s)
   \<and> fs_out (GKWorkspace_Integrate D w f b a epsrel epsabs pabserr pneval s)
       = fs_out (GKWorkspace_Integrate D w f a b epsrel epsabs pabserr pneval s)
   \<and> ws_out (GKWorkspace_Integrate D w f b a epsrel epsabs pabserr pneval s)
       = ws_out (GKWorkspace_Integrate D w f a b epsrel epsabs pabserr pneval s)"
proof (cases "a = b")
  case True
  with assms have "\<And>fc fv1 fv2. fst (GaussKronrod D 8 (wg15 D) (wgk15 D) fc fv1 fv2 0) = 0"
    by blast
  from Integrate_point [OF this, of w f a epsrel epsabs pabserr pneval s] True
  show ?thesis by simp
next
  case False
  show ?thesis
  proof (cases "invalid_tolerance D epsrel epsabs")
    case True
    then show ?thesis by (simp add: GKWorkspace_Integrate_def)
  next
    case valid: False
    then show ?thesis
      by (simp add: Integrate_valid Let_def loop_entry_swap [OF False])
  qed
qed

theorem swapped_bounds_negate_witness:
  "(\<forall>fc fv1 fv2.
      fst (GaussKronrod demo_deps 8 (wg15 demo_deps) (wgk15 demo_deps) fc fv1 fv2 0) = 0)
   \<and> ret (GKWorkspace_Integrate demo_deps (demo_ws 5) (counting square) 1 0 (1 / 10 ^ 6) 0
        (Some 0) (Some 0) 0)
       = - ret (GKWorkspace_Integrate demo_deps (demo_ws 5) (counting square) 0 1 (1 / 10 ^ 6) 0
        (Some 0) (Some 0) 0)
   \<and> abserr_cell (GKWorkspace_Integrate demo_deps (demo_ws 5) (counting square) 1 0
        (1 / 10 ^ 6) 0 (Some 0) (Some 0) 0)
       = abserr_cell (GKWorkspace_Integrate demo_deps (demo_ws 5) (counting square) 0 1
        (1 / 10 ^ 6) 0 (Some 0) (Some 0) 0)
   \<and> neval_cell (GKWorkspace_Integrate demo_deps (demo_ws 5) (counting square) 1 0
        (1 / 10 ^ 6) 0 (Some 0) (Some 0) 0)
       = neval_cell (GKWorkspace_Integrate demo_deps (demo_ws 5) (counting square) 0 1
        (1 / 10 ^ 6) 0 (Some 0) (Some 0) 0)
   \<and> ret (GKWorkspace_Integrate demo_deps (demo_ws 5) (counting square) 1 1 (1 / 10 ^ 6) 0
        (Some 0) (Some 0) 0)
       = - ret (GKWorkspace_Integrate demo_deps (demo_ws 5) (counting square) 1 1 (1 / 10 ^ 6) 0
        (Some 0) (Some 0) 0)"
proof -
  have rule: "\<And>fc fv1 fv2.
      fst (GaussKronrod demo_deps 8 (wg15 demo_deps) (wgk15 demo_deps) fc fv1 fv2 0) = 0"
    by (simp add: demo_deps_def demo_rule_def Let_def)
  from swapped_bounds_negate [where D = demo_deps and a = 0 and b = 1 and w = "demo_ws 5"
      and f = "counting square" and epsrel = "1 / 10 ^ 6" and epsabs = 0
      and pabserr = "Some 0" and pneval = "Some 0" and s = 0, OF rule]
    swapped_bounds_negate [where D = demo_deps and a = 1 and b = 1 and w = "demo_ws 5"
      and f = "counting square" and epsrel = "1 / 10 ^ 6" and epsabs = 0
      and pabserr = "Some 0" and pneval = "Some 0" and s = 0, OF rule] rule
  show ?thesis by simp
qed

subsection \<open>The pool of workspaces\<close>

lemma in_use_used_keys: "in_use W = used_keys (gk_workspaces W)"
  by (simp add: in_use_def)

lemma keys_mark: "map fst (mark p v xs) = map fst xs"
  by (induction xs) (auto simp: mark_def)

lemma used_keys_iff: "q \<in> used_keys xs \<longleftrightarrow> (\<exists>u. (q, u) \<in> set xs \<and> u \<noteq> 0)"
  by (force simp: used_keys_def)

lemma mark_Cons:
  "mark p v [] = []"
  "mark p v ((q, u) # xs) = (if q = p then (q, v) else (q, u)) # mark p v xs"
  by (simp_all add: mark_def)

lemma set_mark:
  "(q, u) \<in> set (mark p v xs) \<longleftrightarrow>
     (if q = p then u = v \<and> p \<in> fst ` set xs else (q, u) \<in> set xs)"
proof (induction xs)
  case Nil
  then show ?case by (simp add: mark_Cons)
next
  case (Cons x xs)
  obtain r w where x: "x = (r, w)" by (cases x)
  show ?case
  proof (cases "q = p")
    case True
    with Cons x show ?thesis by (auto simp add: mark_Cons)
  next
    case False
    with Cons x show ?thesis by (auto simp add: mark_Cons)
  qed
qed

lemma used_keys_mark_0: "used_keys (mark p 0 xs) = used_keys xs - {p}"
proof (rule set_eqI)
  fix q
  show "q \<in> used_keys (mark p 0 xs) \<longleftrightarrow> q \<in> used_keys xs - {p}"
    by (cases "q = p") (simp_all add: used_keys_iff set_mark)
qed

lemma used_keys_mark_1:
  assumes "p \<in> fst ` set xs"
  shows "used_keys (mark p 1 xs) = insert p (used_keys xs)"
proof (rule set_eqI)
  fix q
  show "q \<in> used_keys (mark p 1 xs) \<longleftrightarrow> q \<in> insert p (used_keys xs)"
    using assms by (cases "q = p") (simp_all add: used_keys_iff set_mark)
qed

lemma used_keys_append: "used_keys (xs @ [(p, 1)]) = insert p (used_keys xs)"
  by (rule set_eqI) (auto simp: used_keys_iff)

lemma used_keys_subset: "used_keys xs \<subseteq> fst ` set xs"
  by (force simp: used_keys_iff)

lemma fold_max_bound: "a \<le> fold max ys a \<and> (\<forall>y \<in> set ys. y \<le> fold max ys (a::nat))"
proof (induction ys arbitrary: a)
  case Nil
  then show ?case by simp
next
  case (Cons y ys)
  from Cons [of "max y a"] show ?case by auto
qed

lemma fresh_new: "fresh xs \<notin> fst ` set xs"
proof
  assume "fresh xs \<in> fst ` set xs"
  then have "fresh xs \<in> set (map fst xs)" by simp
  with fold_max_bound [of 0 "map fst xs"] have "fresh xs \<le> fold max (map fst xs) 0" by blast
  then show False by (simp add: fresh_def)
qed

lemma find_free:
  assumes "find (\<lambda>(p, used). used = 0) xs = Some (p, u)" and "distinct (map fst xs)"
  shows "p \<in> fst ` set xs" and "p \<notin> used_keys xs"
proof -
  from assms(1) have mem: "(p, u) \<in> set xs" and u: "u = 0"
    by (auto simp: find_Some_iff dest: nth_mem)
  from mem show "p \<in> fst ` set xs" by force
  show "p \<notin> used_keys xs"
  proof
    assume "p \<in> used_keys xs"
    then obtain v where "(p, v) \<in> set xs" and "v \<noteq> 0" by (auto simp: used_keys_iff)
    with mem assms(2) have "v = u" by (meson eq_key_imp_eq_value)
    with u \<open>v \<noteq> 0\<close> show False by simp
  qed
qed

lemma get_gk_workspace_in_use:
  assumes "distinct (map fst (gk_workspaces W))"
  shows "fst (get_gk_workspace W) \<notin> in_use W"
    and "in_use (snd (get_gk_workspace W)) = insert (fst (get_gk_workspace W)) (in_use W)"
    and "distinct (map fst (gk_workspaces (snd (get_gk_workspace W))))"
proof -
  show "fst (get_gk_workspace W) \<notin> in_use W"
    using find_free [OF _ assms] fresh_new [of "gk_workspaces W"] used_keys_subset [of "gk_workspaces W"]
    by (auto simp: get_gk_workspace_def in_use_used_keys Let_def split: option.splits)
  show "in_use (snd (get_gk_workspace W)) = insert (fst (get_gk_workspace W)) (in_use W)"
    using find_free(1) [OF _ assms]
    by (auto simp: get_gk_workspace_def in_use_used_keys Let_def used_keys_mark_1 used_keys_append
        split: option.splits)
  show "distinct (map fst (gk_workspaces (snd (get_gk_workspace W))))"
    using assms fresh_new [of "gk_workspaces W"]
    by (auto simp: get_gk_workspace_def Let_def keys_mark split: option.splits)
qed


lemma release_in_use: "in_use (release_gk_workspace W p) = in_use W - {p}"
  by (simp add: release_gk_workspace_def in_use_used_keys used_keys_mark_0)

lemma release_distinct:
  "distinct (map fst (gk_workspaces (release_gk_workspace W p)))
     = distinct (map fst (gk_workspaces W))"
  by (simp add: release_gk_workspace_def keys_mark)

lemma heap_update_pool:
  "in_use (W\<lparr>heap := h\<rparr>) = in_use W"
  "gk_workspaces (W\<lparr>heap := h\<rparr>) = gk_workspaces W"
  by (simp_all add: in_use_def)

text \<open>An invariant of the integrand's state that every call of the integrand keeps is
  kept by the whole integration.\<close>

lemma Integrate_keeps:
  assumes f: "\<And>x s. I s \<Longrightarrow> I (snd (f x s))" and s: "I s"
  shows "I (fs_out (GKWorkspace_Integrate D w f a b er ea pa pn s))"
proof -
  have "sim_calls (\<lambda>s t. s = t \<and> I s) f f"
    using f by (simp add: sim_calls_def)
  from Integrate_sim [OF refl this, of s s D w a b er ea pa pn] s
  show ?thesis by simp
qed

lemma Integrate_exits_returns:
  "Integrate_exits (engine_returns D f a b epsrel epsabs pabserr pneval) W
     = Returns (Integrate D f a b epsrel epsabs pabserr pneval W)"
  by (simp add: Integrate_exits_def engine_returns_def Integrate_def Let_def case_prod_beta)

lemma Integrate_exits_throws:
  "\<not> invalid_tolerance D epsrel epsabs \<Longrightarrow>
   Integrate_exits (engine_throws D epsrel epsabs pabserr pneval) W
     = Throws (snd (get_gk_workspace W))"
  by (simp add: Integrate_exits_def engine_throws_def Let_def case_prod_beta)

lemma get_gk_workspace_user: "user (snd (get_gk_workspace W)) = user W"
  by (simp add: get_gk_workspace_def Let_def split: option.splits)

lemma get_gk_workspace_key:
  "fst (get_gk_workspace W) \<in> fst ` set (gk_workspaces (snd (get_gk_workspace W)))"
proof (cases "find (\<lambda>(p, used). used = 0) (gk_workspaces W)")
  case None
  then show ?thesis by (simp add: get_gk_workspace_def Let_def)
next
  case (Some pu)
  obtain p u where pu: "pu = (p, u)" by (cases pu)
  from Some pu have "(p, u) \<in> set (gk_workspaces W)"
    by (auto simp: find_Some_iff dest: nth_mem)
  then have "p \<in> fst ` set (gk_workspaces W)" by force
  then have "p \<in> set (map fst (mark p 1 (gk_workspaces W)))" by (simp add: keys_mark)
  with Some pu show ?thesis by (simp add: get_gk_workspace_def)
qed

text \<open>The calls of the watching integrand against a counting one.\<close>

lemma watching_counting:
  "sim_calls (\<lambda>Wc k. gk_workspaces Wc = gk_workspaces V \<and> heap Wc = heap V
        \<and> user Wc = (obs (in_use V) ^^ k) (user V))
     (watching obs g) (counting g)"
  by (simp add: sim_calls_def watching_def counting_def in_use_def)

lemma watching_run:
  "gk_workspaces (fs_out (GKWorkspace_Integrate D w (watching obs g) a b er ea pa pn V))
     = gk_workspaces V
   \<and> user (fs_out (GKWorkspace_Integrate D w (watching obs g) a b er ea pa pn V))
     = (obs (in_use V) ^^ fs_out (GKWorkspace_Integrate D w (counting g) a b er ea pa pn 0))
         (user V)"
proof -
  let ?R = "\<lambda>Wc k. gk_workspaces Wc = gk_workspaces V \<and> heap Wc = heap V
        \<and> user Wc = (obs (in_use V) ^^ k) (user V)"
  have c: "sim_calls ?R (watching obs g) (counting g)" by (rule watching_counting)
  have r: "?R V 0" by simp
  from Integrate_sim [OF refl c r, where D = D and w = w and a = a and b = b and er = er
      and ea = ea and pa = pa and pn = pn]
  show ?thesis by simp
qed

lemma counting_calls:
  "\<not> invalid_tolerance D er ea \<Longrightarrow>
   45 \<le> fs_out (GKWorkspace_Integrate D w (counting g) a b er ea pa pn 0)"
  using loop_passes_pos [of D "counting g" er ea "snd (loop_entry D w (counting g) a b 0)"]
  by (simp add: Integrate_valid Let_def integrate_loop_counting loop_entry_counting)


text \<open>
  C8.  A call of the free function \<open>Integrate\<close> that returns, whether the tolerances
  are accepted or refused, has taken exactly one workspace \<open>p\<close> that was not in use
  and marked it, has run the member function on that workspace in the world where it is
  marked (the outcome is that of the member function, and an integrand that notes the
  workspaces in use sees the ones in use before the call and \<open>p\<close> at every one of its
  calls, at least 45 when the tolerances are accepted), has written that workspace behind
  \<open>p\<close>, and has cleared the mark of \<open>p\<close> before returning: \<open>p\<close> is a key of the
  map and free, and the set of the workspaces in use is the set before the call.  The
  integrand is taken to leave the set in use as it found it, as one that integrates
  through \<open>Integrate\<close> itself does, by this very statement; the keys of the map are
  distinct before and after.  When the integrand throws in a call with accepted
  tolerances, the free function is left before the release.
\<close>

theorem workspace_acquired_and_released:
  fixes W :: "('r::linordered_field, 'u) world"
  defines "p \<equiv> fst (get_gk_workspace W)" and "V \<equiv> snd (get_gk_workspace W)"
  assumes keys: "distinct (map fst (gk_workspaces W))"
    and f: "\<forall>x W'. distinct (map fst (gk_workspaces W'))
        \<longrightarrow> distinct (map fst (gk_workspaces (snd (f x W'))))
            \<and> in_use (snd (f x W')) = in_use W'"
  shows "Integrate_exits (engine_returns D f a b epsrel epsabs pabserr pneval) W
           = Returns (Integrate D f a b epsrel epsabs pabserr pneval W)
   \<and> p \<notin> in_use W
   \<and> in_use V = insert p (in_use W)
   \<and> ret (Integrate D f a b epsrel epsabs pabserr pneval W)
       = ret (GKWorkspace_Integrate D (heap V p) f a b epsrel epsabs pabserr pneval V)
   \<and> abserr_cell (Integrate D f a b epsrel epsabs pabserr pneval W)
       = abserr_cell (GKWorkspace_Integrate D (heap V p) f a b epsrel epsabs pabserr pneval V)
   \<and> neval_cell (Integrate D f a b epsrel epsabs pabserr pneval W)
       = neval_cell (GKWorkspace_Integrate D (heap V p) f a b epsrel epsabs pabserr pneval V)
   \<and> reported (Integrate D f a b epsrel epsabs pabserr pneval W)
       = reported (GKWorkspace_Integrate D (heap V p) f a b epsrel epsabs pabserr pneval V)
   \<and> user (fs_out (Integrate D (watching obs g) a b epsrel epsabs pabserr pneval W))
       = (obs (insert p (in_use W))
            ^^ fs_out (GKWorkspace_Integrate D (heap V p) (counting g) a b epsrel epsabs
                 pabserr pneval 0)) (user W)
   \<and> (\<not> invalid_tolerance D epsrel epsabs \<longrightarrow>
        45 \<le> fs_out (GKWorkspace_Integrate D (heap V p) (counting g) a b epsrel epsabs
                 pabserr pneval 0))
   \<and> heap (fs_out (Integrate D f a b epsrel epsabs pabserr pneval W)) p
       = ws_out (GKWorkspace_Integrate D (heap V p) f a b epsrel epsabs pabserr pneval V)
   \<and> p \<in> fst ` set (gk_workspaces (fs_out (Integrate D f a b epsrel epsabs pabserr pneval W)))
   \<and> p \<notin> in_use (fs_out (Integrate D f a b epsrel epsabs pabserr pneval W))
   \<and> in_use (fs_out (Integrate D f a b epsrel epsabs pabserr pneval W)) = in_use W
   \<and> distinct (map fst (gk_workspaces
        (fs_out (Integrate D f a b epsrel epsabs pabserr pneval W))))
   \<and> (\<not> invalid_tolerance D epsrel epsabs \<longrightarrow>
        Integrate_exits (engine_throws D epsrel epsabs pabserr pneval) W = Throws V)"
proof -
  have g: "get_gk_workspace W = (p, V)" by (simp add: p_def V_def)
  from get_gk_workspace_in_use [OF keys]
  have p: "p \<notin> in_use W" and V: "in_use V = insert p (in_use W)"
    and dV: "distinct (map fst (gk_workspaces V))" by (simp_all add: p_def V_def)
  let ?I = "\<lambda>W'. distinct (map fst (gk_workspaces W')) \<and> in_use W' = insert p (in_use W)"
  let ?r = "GKWorkspace_Integrate D (heap V p) f a b epsrel epsabs pabserr pneval V"
  let ?i = "Integrate D f a b epsrel epsabs pabserr pneval W"
  have inv: "?I (fs_out ?r)"
  proof (rule Integrate_keeps [where I = ?I])
    show "\<And>x s. ?I s \<Longrightarrow> ?I (snd (f x s))" using f by simp
    show "?I V" using V dV by simp
  qed
  have out: "?i = ?r\<lparr>fs_out :=
      release_gk_workspace ((fs_out ?r)\<lparr>heap := (heap (fs_out ?r))(p := ws_out ?r)\<rparr>) p\<rparr>"
    by (simp add: Integrate_def g Let_def)
  have res: "ret ?i = ret ?r" "abserr_cell ?i = abserr_cell ?r" "neval_cell ?i = neval_cell ?r"
    "reported ?i = reported ?r" "heap (fs_out ?i) p = ws_out ?r"
    by (simp_all add: out release_gk_workspace_def)
  have use: "in_use (fs_out ?i) = in_use W"
    and dist: "distinct (map fst (gk_workspaces (fs_out ?i)))"
    using inv p by (simp_all add: out release_in_use release_distinct heap_update_pool)
  have "p \<in> in_use (fs_out ?r)" using inv by simp
  then have "p \<in> fst ` set (gk_workspaces (fs_out ?r))"
    using used_keys_subset [of "gk_workspaces (fs_out ?r)"] by (auto simp: in_use_def)
  then have key: "p \<in> fst ` set (gk_workspaces (fs_out ?i))"
    using keys_mark [of p 0 "gk_workspaces (fs_out ?r)"]
    by (simp add: out release_gk_workspace_def del: set_map) (metis list.set_map)
  have free: "p \<notin> in_use (fs_out ?i)" using use p by simp
  let ?w = "GKWorkspace_Integrate D (heap V p) (watching obs g) a b epsrel epsabs pabserr pneval V"
  have "fs_out (Integrate D (watching obs g) a b epsrel epsabs pabserr pneval W)
      = release_gk_workspace ((fs_out ?w)\<lparr>heap := (heap (fs_out ?w))(p := ws_out ?w)\<rparr>) p"
    by (simp add: Integrate_def g Let_def)
  then have watch: "user (fs_out (Integrate D (watching obs g) a b epsrel epsabs pabserr pneval W))
       = (obs (insert p (in_use W))
            ^^ fs_out (GKWorkspace_Integrate D (heap V p) (counting g) a b epsrel epsabs
                 pabserr pneval 0)) (user W)"
    using watching_run [of D "heap V p" obs g a b epsrel epsabs pabserr pneval V]
      get_gk_workspace_user [of W]
    by (simp add: release_gk_workspace_def V V_def [symmetric])
  have calls: "\<not> invalid_tolerance D epsrel epsabs \<longrightarrow>
        45 \<le> fs_out (GKWorkspace_Integrate D (heap V p) (counting g) a b epsrel epsabs
                 pabserr pneval 0)"
    using counting_calls by blast
  have thr: "\<not> invalid_tolerance D epsrel epsabs \<longrightarrow>
        Integrate_exits (engine_throws D epsrel epsabs pabserr pneval) W = Throws V"
    using Integrate_exits_throws [of D epsrel epsabs pabserr pneval W] by (simp add: V_def)
  from Integrate_exits_returns [of D f a b epsrel epsabs pabserr pneval W]
    p V res watch calls key free use dist thr
  show ?thesis by blast
qed


theorem workspace_acquired_and_released_witness:
  "distinct (map fst (gk_workspaces demo_world))
   \<and> fst (get_gk_workspace demo_world) \<notin> in_use demo_world
   \<and> in_use (snd (get_gk_workspace demo_world))
       = insert (fst (get_gk_workspace demo_world)) (in_use demo_world)
   \<and> ret (Integrate demo_deps nested 0 1 (1 / 10 ^ 6) 0 None None demo_world)
       = ret (GKWorkspace_Integrate demo_deps
           (heap (snd (get_gk_workspace demo_world)) (fst (get_gk_workspace demo_world)))
           nested 0 1 (1 / 10 ^ 6) 0 None None (snd (get_gk_workspace demo_world)))
   \<and> in_use (fs_out (Integrate demo_deps nested 0 1 (1 / 10 ^ 6) 0 None None demo_world))
       = in_use demo_world
   \<and> fst (get_gk_workspace demo_world)
       \<notin> in_use (fs_out (Integrate demo_deps nested 0 1 (1 / 10 ^ 6) 0 None None demo_world))
   \<and> distinct (map fst (gk_workspaces
        (fs_out (Integrate demo_deps nested 0 1 (1 / 10 ^ 6) 0 None None demo_world))))"
proof -
  have keys: "distinct (map fst (gk_workspaces demo_world))"
    by (simp add: demo_world_def)
  have inner: "\<forall>x W'. distinct (map fst (gk_workspaces W'))
        \<longrightarrow> distinct (map fst (gk_workspaces (snd (nested x W'))))
            \<and> in_use (snd (nested x W')) = in_use W'"
  proof (intro allI impI)
    fix x :: rat and W' :: "(rat, unit) world"
    assume d: "distinct (map fst (gk_workspaces W'))"
    have pure: "\<forall>y W''. distinct (map fst (gk_workspaces W''))
        \<longrightarrow> distinct (map fst (gk_workspaces (snd (pure_integrand square y W''))))
            \<and> in_use (snd (pure_integrand square y W'')) = in_use W''"
      by (simp add: pure_integrand_def)
    from workspace_acquired_and_released [where f = "pure_integrand square" and W = W'
        and D = demo_deps and a = 0 and b = x and epsrel = "1 / 10 ^ 6" and epsabs = 0
        and pabserr = None and pneval = None and obs = "\<lambda>U u. u" and g = square, OF d pure]
    have "in_use (fs_out (Integrate demo_deps (pure_integrand square) 0 x (1 / 10 ^ 6) 0
            None None W')) = in_use W'
        \<and> distinct (map fst (gk_workspaces (fs_out (Integrate demo_deps
            (pure_integrand square) 0 x (1 / 10 ^ 6) 0 None None W'))))"
      by (elim conjE) (intro conjI; assumption)
    then show "distinct (map fst (gk_workspaces (snd (nested x W'))))
            \<and> in_use (snd (nested x W')) = in_use W'"
      by (simp add: nested_def Let_def)
  qed
  from workspace_acquired_and_released [where f = nested and W = demo_world
      and D = demo_deps and a = 0 and b = 1 and epsrel = "1 / 10 ^ 6" and epsabs = 0
      and pabserr = None and pneval = None and obs = "\<lambda>U u. u" and g = square,
      OF keys inner] keys
  show ?thesis by (elim conjE) (intro conjI; assumption)
qed

text \<open>
  C8, the exit that the release misses.  In the world with the workspaces 1 (in use)
  and 2 (free), a call with accepted tolerances whose integrand throws takes workspace
  2 and is left by the exception with 1 and 2 marked in use: the marking is not the
  one before the call.
\<close>

theorem workspace_stays_marked_when_integrand_throws:
  "Integrate_exits (engine_throws demo_deps (1 / 10 ^ 6) 0 None None) demo_world
     = Throws (snd (get_gk_workspace demo_world))
   \<and> in_use demo_world = {1}
   \<and> in_use (exit_world
        (Integrate_exits (engine_throws demo_deps (1 / 10 ^ 6) 0 None None) demo_world))
       = {1, 2}
   \<and> in_use (exit_world
        (Integrate_exits (engine_throws demo_deps (1 / 10 ^ 6) 0 None None) demo_world))
       \<noteq> in_use demo_world"
proof -
  have v: "\<not> invalid_tolerance demo_deps (1 / 10 ^ 6) 0"
    by (simp add: invalid_tolerance_def demo_deps_def)
  have e: "Integrate_exits (engine_throws demo_deps (1 / 10 ^ 6) 0 None None) demo_world
     = Throws (snd (get_gk_workspace demo_world))"
    by (rule Integrate_exits_throws [OF v])
  have b: "in_use demo_world = {1}"
    by (simp add: in_use_def used_keys_def demo_world_def)
  have a: "in_use (snd (get_gk_workspace demo_world)) = {1, 2}"
    by (auto simp add: in_use_def used_keys_def demo_world_def get_gk_workspace_def mark_def)
  show ?thesis
    unfolding e using a b by (simp add: exit_world_def)
qed

subsection \<open>The substitution entry point\<close>

text \<open>
  C7.  The entry point with a substitution is the free function \<open>Integrate\<close> applied
  to the composed integrand \<open>SubFunc f sub\<close>, whose value at \<open>u\<close> is
  \<open>f(sub.x(u)) * sub.dxdu(u)\<close>, over the bounds \<open>sub.u(a)\<close>, \<open>sub.u(b)\<close>, with the
  tolerances and the two pointers passed on as they are: the two calls have the same
  outcome in everything, the result, \<open>abserr\<close> and \<open>neval\<close> included.  For an integrand
  without effects the composed integrand is the function of the spec,
  \<open>g(u) = f(x(u)) \<cdot> dxdu(u)\<close>.
\<close>

theorem Integrate_Sub_is_Integrate_of_composition:
  "Integrate_Sub D f a b epsrel epsabs pabserr pneval sub W
     = Integrate D (SubFunc f sub) (sub_u sub a) (sub_u sub b) epsrel epsabs pabserr pneval W
   \<and> SubFunc f sub u s = (fst (f (sub_x sub u) s) * sub_dxdu sub u, snd (f (sub_x sub u) s))
   \<and> SubFunc (pure_integrand g) sub = pure_integrand (spec_composed g sub)
   \<and> Integrate_Sub D (pure_integrand g) a b epsrel epsabs pabserr pneval sub W
     = Integrate D (pure_integrand (spec_composed g sub)) (sub_u sub a) (sub_u sub b)
         epsrel epsabs pabserr pneval W"
proof -
  have c: "SubFunc (pure_integrand g) sub = pure_integrand (spec_composed g sub)"
    by (rule ext)+ (simp add: SubFunc_def pure_integrand_def spec_composed_def)
  have i: "\<And>f. Integrate_Sub D f a b epsrel epsabs pabserr pneval sub W
     = Integrate D (SubFunc f sub) (sub_u sub a) (sub_u sub b) epsrel epsabs pabserr pneval W"
    by (simp add: Integrate_Sub_def Integrate_def Let_def)
  show ?thesis
    by (simp add: i c) (simp add: SubFunc_def case_prod_beta)
qed

end
